theory Spec2Isabelle
  imports Main "HOL-Library.Sublist"
begin

section \<open>Errors\<close>

text \<open>
  Go errors are values.  \<open>fmt.Errorf\<close> with one or more \<open>%w\<close> verbs builds an
  error that wraps others; it is kept as the format string, the strings printed by
  \<open>%q\<close> and the wrapped errors.  (The rendering of a stack entry by \<open>%s\<close> in the two
  messages of \<open>popPart\<close> needs the name of an open file and is left out of the
  argument list.)  \<open>&os.PathError{Op, Path, Err}\<close> keeps its three fields.
\<close>

datatype errno = ENOENT | EINVAL | ENOTDIR | ELOOP | EMFILE | EIO

datatype error =
    Errno errno
  | errEmptyStack
  | errBrokenSymlinkStack
  | errPossibleAttack
  | Errorf string "string list" "error list"
  | PathError string string errno

text \<open>\<open>errors.Is\<close>: the error itself or one it wraps, at any depth.\<close>

fun errors_Is :: "error \<Rightarrow> error \<Rightarrow> bool" where
  "errors_Is (Errorf fmt args ws) target =
     (Errorf fmt args ws = target \<or> list_ex (\<lambda>w. errors_Is w target) ws)"
| "errors_Is (PathError opn path e) target =
     (PathError opn path e = target \<or> Errno e = target)"
| "errors_Is err target = (err = target)"

text \<open>\<open>os.ErrNotExist\<close> is what \<open>ENOENT\<close> answers to under \<open>errors.Is\<close>.\<close>

abbreviation ErrNotExist :: error where
  "ErrNotExist \<equiv> Errno ENOENT"


section \<open>The pieces of Go's \<open>strings\<close> and \<open>path\<close> packages the walk uses\<close>

text \<open>\<open>strings.IndexByte\<close>; the result \<open>-1\<close> is \<open>None\<close>.\<close>

fun strings_IndexByte :: "string \<Rightarrow> char \<Rightarrow> nat option" where
  "strings_IndexByte [] c = None"
| "strings_IndexByte (x # xs) c =
     (if x = c then Some 0 else map_option Suc (strings_IndexByte xs c))"

text \<open>\<open>strings.Split\<close> with a one-byte separator: always at least one piece.\<close>

fun strings_Split :: "string \<Rightarrow> char \<Rightarrow> string list" where
  "strings_Split [] sep = [[]]"
| "strings_Split (x # xs) sep =
     (if x = sep then [] # strings_Split xs sep
      else (case strings_Split xs sep of
              [] \<Rightarrow> [[x]]
            | piece # pieces \<Rightarrow> (x # piece) # pieces))"

fun strings_Join :: "string list \<Rightarrow> string \<Rightarrow> string" where
  "strings_Join [] sep = []"
| "strings_Join [e] sep = e"
| "strings_Join (e # es) sep = e @ sep @ strings_Join es sep"

text \<open>
  \<open>path.Clean\<close>, element by element: empty and \<open>.\<close> elements go, a \<open>..\<close> removes the
  element before it when there is one that is not itself \<open>..\<close>, is dropped at the top
  of a rooted path and is kept at the front of a relative one.
\<close>

fun cleanElems :: "bool \<Rightarrow> string list \<Rightarrow> string list \<Rightarrow> string list" where
  "cleanElems rooted out [] = out"
| "cleanElems rooted out (e # es) =
     (if e = [] \<or> e = ''.'' then cleanElems rooted out es
      else if e = ''..'' then
        (if out \<noteq> [] \<and> last out \<noteq> ''..'' then cleanElems rooted (butlast out) es
         else if rooted then cleanElems rooted out es
         else cleanElems rooted (out @ [e]) es)
      else cleanElems rooted (out @ [e]) es)"

definition path_Clean :: "string \<Rightarrow> string" where
  "path_Clean p =
     (if p = [] then ''.''
      else let rooted = (hd p = CHR ''/'');
               out = cleanElems rooted [] (strings_Split p CHR ''/'');
               s = (if rooted then ''/'' else []) @ strings_Join out ''/''
           in if s = [] then ''.'' else s)"

text \<open>
  \<open>path.Join\<close>: leading empty elements are skipped, the rest is joined with slashes
  and cleaned; nothing but empty elements gives the empty string.
\<close>

definition path_Join :: "string list \<Rightarrow> string" where
  "path_Join elems =
     (if concat elems = [] then []
      else path_Clean (strings_Join (dropWhile (\<lambda>e. e = []) elems) ''/''))"

definition path_IsAbs :: "string \<Rightarrow> bool" where
  "path_IsAbs p = (case p of [] \<Rightarrow> False | c # cs \<Rightarrow> c = CHR ''/'')"


section \<open>Open files and the collaborators of the walk\<close>

text \<open>
  An \<open>*os.File\<close> is an object of the Go runtime: it has an identity of its own
  (\<open>ident\<close>, never reused) and wraps what the kernel handed out (\<open>desc\<close>).  The
  process keeps the state of the world outside (\<open>kernel\<close>: the file system and
  whatever else changes it), the next unused identity, and the identities of the
  files that are open.
\<close>

datatype 'h osFile = File (ident: nat) (desc: 'h)

record 'w proc =
  kernel :: 'w
  nextFile :: nat
  openFiles :: "nat set"

datatype fileMode = ModeDir | ModeSymlink | ModeOther

text \<open>
  The system's answers are parameters of the model.  Each takes the state of the
  world and returns the new one, so an answer may differ from one call to the next:
  a file system that another process rewrites during the walk is one such world.
  \<open>maxSymlinkLimit\<close>, \<open>hasOpenat2\<close> and \<open>partialLookupOpenat2\<close> are declared in other
  files of the package and are parameters as well.
\<close>

record ('w, 'h) os =
  hasOpenat2 :: bool
  maxSymlinkLimit :: nat
  sys_dup :: "'w \<Rightarrow> 'h \<Rightarrow> (error + 'h) \<times> 'w"
  sys_openat :: "'w \<Rightarrow> 'h \<Rightarrow> string \<Rightarrow> (error + 'h) \<times> 'w"
  sys_fstat :: "'w \<Rightarrow> 'h \<Rightarrow> (error + fileMode) \<times> 'w"
  sys_readlinkat :: "'w \<Rightarrow> 'h \<Rightarrow> string \<Rightarrow> (error + string) \<times> 'w"
  sys_procSelfFdReadlink :: "'w \<Rightarrow> 'h \<Rightarrow> (error + string) \<times> 'w"
  sys_checkProcSelfFdPath :: "'w \<Rightarrow> string \<Rightarrow> 'h \<Rightarrow> error option \<times> 'w"
  sys_close :: "'w \<Rightarrow> 'h \<Rightarrow> 'w"
  partialLookupOpenat2 ::
    "'w proc \<Rightarrow> 'h osFile \<Rightarrow> string \<Rightarrow> (error + 'h osFile \<times> string) \<times> 'w proc"

text \<open>A new \<open>*os.File\<close> around a descriptor: a fresh identity, now open.\<close>

definition newFile :: "'w proc \<Rightarrow> 'h \<Rightarrow> 'h osFile \<times> 'w proc" where
  "newFile p h =
     (File (nextFile p) h,
      p\<lparr>nextFile := Suc (nextFile p), openFiles := insert (nextFile p) (openFiles p)\<rparr>)"

text \<open>
  Modelled from the spec: \<open>dupFile\<close> is not in the source file.  Section 6:
  \<open>duplicate(handle) -> owned_handle\<close>, fails with an I/O error if the underlying
  duplication fails.
\<close>

definition dupFile :: "('w, 'h) os \<Rightarrow> 'w proc \<Rightarrow> 'h osFile \<Rightarrow> (error + 'h osFile) \<times> 'w proc" where
  "dupFile os p f =
     (case sys_dup os (kernel p) (desc f) of
        (Inl err, k) \<Rightarrow> (Inl err, p\<lparr>kernel := k\<rparr>)
      | (Inr h, k) \<Rightarrow> (case newFile (p\<lparr>kernel := k\<rparr>) h of (g, p') \<Rightarrow> (Inr g, p')))"

text \<open>
  Modelled from the spec: \<open>openatFile\<close> is not in the source file.  Section 6:
  \<open>open_component(directory, name, flags) -> handle\<close> opens exactly one path component
  relative to a directory without following a trailing symlink; it fails with
  not-found, not-a-directory or a generic I/O error.  The flags of the one call site
  are fixed and are not an argument here.
\<close>

definition openatFile ::
    "('w, 'h) os \<Rightarrow> 'w proc \<Rightarrow> 'h osFile \<Rightarrow> string \<Rightarrow> (error + 'h osFile) \<times> 'w proc" where
  "openatFile os p d name =
     (case sys_openat os (kernel p) (desc d) name of
        (Inl err, k) \<Rightarrow> (Inl err, p\<lparr>kernel := k\<rparr>)
      | (Inr h, k) \<Rightarrow> (case newFile (p\<lparr>kernel := k\<rparr>) h of (g, p') \<Rightarrow> (Inr g, p')))"

text \<open>
  \<open>(*os.File).Close\<close>: the first call releases the descriptor; a later call on the
  same object returns an error, which every call site discards, and does nothing.
\<close>

definition closeFile :: "('w, 'h) os \<Rightarrow> 'w proc \<Rightarrow> 'h osFile \<Rightarrow> 'w proc" where
  "closeFile os p f =
     (if ident f \<in> openFiles p
      then p\<lparr>kernel := sys_close os (kernel p) (desc f), openFiles := openFiles p - {ident f}\<rparr>
      else p)"

text \<open>\<open>(*os.File).Stat\<close> followed by \<open>Mode() & os.ModeType\<close>.\<close>

definition statMode ::
    "('w, 'h) os \<Rightarrow> 'w proc \<Rightarrow> 'h osFile \<Rightarrow> (error + fileMode) \<times> 'w proc" where
  "statMode os p f =
     (case sys_fstat os (kernel p) (desc f) of (r, k) \<Rightarrow> (r, p\<lparr>kernel := k\<rparr>))"

text \<open>
  Modelled from the spec: \<open>readlinkatFile\<close> is not in the source file.  Section 6:
  \<open>read_symlink(directory, name) -> target_string\<close>, fails with "not a symlink"
  (\<open>EINVAL\<close>) or a generic I/O error.
\<close>

definition readlinkatFile ::
    "('w, 'h) os \<Rightarrow> 'w proc \<Rightarrow> 'h osFile \<Rightarrow> string \<Rightarrow> (error + string) \<times> 'w proc" where
  "readlinkatFile os p d name =
     (case sys_readlinkat os (kernel p) (desc d) name of (r, k) \<Rightarrow> (r, p\<lparr>kernel := k\<rparr>))"

text \<open>
  Modelled from the spec: \<open>procSelfFdReadlink\<close> is not in the source file.  Section 6:
  \<open>resolve_self_path(handle) -> path_string\<close>, the authoritative path of a handle.
\<close>

definition procSelfFdReadlink ::
    "('w, 'h) os \<Rightarrow> 'w proc \<Rightarrow> 'h osFile \<Rightarrow> (error + string) \<times> 'w proc" where
  "procSelfFdReadlink os p f =
     (case sys_procSelfFdReadlink os (kernel p) (desc f) of (r, k) \<Rightarrow> (r, p\<lparr>kernel := k\<rparr>))"

text \<open>
  Modelled from the spec: \<open>checkProcSelfFdPath\<close> is not in the source file.  Section 6:
  \<open>verify_self_path(expected_path, handle)\<close>, used solely by the race check; an error
  is the report that the handle does not denote the expected path.
\<close>

definition checkProcSelfFdPath ::
    "('w, 'h) os \<Rightarrow> 'w proc \<Rightarrow> string \<Rightarrow> 'h osFile \<Rightarrow> error option \<times> 'w proc" where
  "checkProcSelfFdPath os p path f =
     (case sys_checkProcSelfFdPath os (kernel p) path (desc f) of
        (r, k) \<Rightarrow> (r, p\<lparr>kernel := k\<rparr>))"


section \<open>The symlink stack\<close>

record 'h symlinkStackEntry =
  dir :: "'h osFile"
  remainingPath :: string
  linkUnwalked :: "string list"

type_synonym 'h symlinkStack = "'h symlinkStackEntry list"

definition entry_Close :: "('w, 'h) os \<Rightarrow> 'w proc \<Rightarrow> 'h symlinkStackEntry \<Rightarrow> 'w proc" where
  "entry_Close os p se = closeFile os p (dir se)"

definition IsEmpty :: "'h symlinkStack \<Rightarrow> bool" where
  "IsEmpty s = (length s = 0)"

text \<open>\<open>symlinkStack.Close\<close> closes every entry, front to back; the stack is then nil.\<close>

fun stack_Close :: "('w, 'h) os \<Rightarrow> 'w proc \<Rightarrow> 'h symlinkStack \<Rightarrow> 'w proc" where
  "stack_Close os p [] = p"
| "stack_Close os p (link # s) = stack_Close os (entry_Close os p link) s"

text \<open>
  \<open>popPart\<close> changes the tail entry in place through its pointer; here it returns the
  stack with that entry replaced.
\<close>

definition popPart :: "'h symlinkStack \<Rightarrow> string \<Rightarrow> error option \<times> 'h symlinkStack" where
  "popPart s part =
     (if IsEmpty s then (Some errEmptyStack, s)
      else let tailEntry = last s in
        if length (linkUnwalked tailEntry) = 0
        then (Some (Errorf ''%w: trying to pop component %q of empty stack entry %s''
                      [part] [errBrokenSymlinkStack]), s)
        else let headPart = hd (linkUnwalked tailEntry) in
          if headPart \<noteq> part
          then (Some (Errorf ''%w: trying to pop component %q but the last stack entry is %s (%q)''
                        [part, headPart] [errBrokenSymlinkStack]), s)
          else (None, butlast s @ [tailEntry\<lparr>linkUnwalked := tl (linkUnwalked tailEntry)\<rparr>]))"

text \<open>The cleaning loop of \<open>PopPart\<close>: from the tail, close and drop entries with nothing left.\<close>

function dropEmptyTail ::
    "('w, 'h) os \<Rightarrow> 'w proc \<Rightarrow> 'h symlinkStack \<Rightarrow> 'w proc \<times> 'h symlinkStack" where
  "dropEmptyTail os p s =
     (if s = [] then (p, s)
      else if length (linkUnwalked (last s)) > 0 then (p, s)
      else dropEmptyTail os (entry_Close os p (last s)) (butlast s))"
  by pat_completeness auto
termination
  by (relation "measure (\<lambda>(os, p, s). length s)") auto

definition PopPart ::
    "('w, 'h) os \<Rightarrow> 'w proc \<Rightarrow> 'h symlinkStack \<Rightarrow> string
      \<Rightarrow> error option \<times> 'w proc \<times> 'h symlinkStack" where
  "PopPart os p s part =
     (case popPart s part of
        (Some err, s') \<Rightarrow>
          (if errors_Is err errEmptyStack then (None, p, s') else (Some err, p, s'))
      | (None, s') \<Rightarrow> (case dropEmptyTail os p s' of (p', s'') \<Rightarrow> (None, p', s'')))"

definition push ::
    "('w, 'h) os \<Rightarrow> 'w proc \<Rightarrow> 'h symlinkStack \<Rightarrow> 'h osFile \<Rightarrow> string \<Rightarrow> string
      \<Rightarrow> error option \<times> 'w proc \<times> 'h symlinkStack" where
  "push os p s d rp linkTarget =
     (let linkTargetParts = filter (\<lambda>part. part \<noteq> []) (strings_Split linkTarget CHR ''/'') in
      if length linkTargetParts = 0 then (None, p, s)
      else (case dupFile os p d of
              (Inl err, p') \<Rightarrow> (Some err, p', s)
            | (Inr dirCopy, p') \<Rightarrow>
                (None, p',
                 s @ [\<lparr>dir = dirCopy, remainingPath = rp, linkUnwalked = linkTargetParts\<rparr>])))"

definition SwapLink ::
    "('w, 'h) os \<Rightarrow> 'w proc \<Rightarrow> 'h symlinkStack \<Rightarrow> string \<Rightarrow> 'h osFile \<Rightarrow> string \<Rightarrow> string
      \<Rightarrow> error option \<times> 'w proc \<times> 'h symlinkStack" where
  "SwapLink os p s linkPart d rp linkTarget =
     (case popPart s linkPart of
        (Some err, s') \<Rightarrow>
          (if \<not> errors_Is err errEmptyStack then (Some err, p, s')
           else push os p s' d rp linkTarget)
      | (None, s') \<Rightarrow> push os p s' d rp linkTarget)"

text \<open>\<open>PopTopSymlink\<close> takes the entry at the front, the one pushed first.\<close>

definition PopTopSymlink ::
    "'h symlinkStack \<Rightarrow> ('h osFile \<times> string \<times> 'h symlinkStack) option" where
  "PopTopSymlink s =
     (if IsEmpty s then None
      else let tailEntry = hd s in Some (dir tailEntry, remainingPath tailEntry, tl s))"


section \<open>The walk\<close>

text \<open>
  The local variables of \<open>partialLookupInRoot\<close> that change from one iteration to the
  next: \<open>currentDir\<close>, \<open>symlinkStack\<close> (here \<open>stack\<close>), \<open>linksWalked\<close>, \<open>currentPath\<close> and
  \<open>remainingPath\<close> (here \<open>remaining\<close>; the stack entry has a field of that name).
\<close>

record 'h walk =
  currentDir :: "'h osFile"
  stack :: "'h symlinkStack"
  linksWalked :: nat
  currentPath :: string
  remaining :: string

text \<open>
  One iteration either goes on to the next (\<open>Continue\<close>) or executes a \<open>return\<close>
  statement (\<open>Return\<close>, with the variables as they are at that moment, which the
  deferred calls read).
\<close>

datatype ('s, 'r) iter = Continue 's | Return 'r

type_synonym 'h answer = "error + 'h osFile \<times> string"

type_synonym ('w, 'h) walkIter =
  "('w proc \<times> 'h walk, 'w proc \<times> 'h walk \<times> 'h answer) iter"

text \<open>
  The two deferred calls, last registered first: \<open>symlinkStack.Close()\<close>, then the
  closure that closes \<open>currentDir\<close> when the call returns an error.
\<close>

definition deferred ::
    "('w, 'h) os \<Rightarrow> 'w proc \<Rightarrow> 'h walk \<Rightarrow> 'h answer \<Rightarrow> 'h answer \<times> 'w proc" where
  "deferred os p w res =
     (let p1 = stack_Close os p (stack w) in
      case res of
        Inl err \<Rightarrow> (res, closeFile os p1 (currentDir w))
      | Inr r \<Rightarrow> (res, p1))"

text \<open>The branch \<open>nextPath == "/"\<close>: the component leads to the root.\<close>

definition walkIntoRoot ::
    "('w, 'h) os \<Rightarrow> 'h osFile \<Rightarrow> 'w proc \<Rightarrow> 'h walk \<Rightarrow> string \<Rightarrow> string \<Rightarrow> ('w, 'h) walkIter" where
  "walkIntoRoot os root p w part nextPath =
     (case PopPart os p (stack w) part of
        (Some err, p1, s1) \<Rightarrow>
          Return (p1, w\<lparr>stack := s1\<rparr>,
                  Inl (Errorf ''walking into root with part %q failed: %w'' [part] [err]))
      | (None, p1, s1) \<Rightarrow>
          (case dupFile os p1 root of
             (Inl err, p2) \<Rightarrow>
               Return (p2, w\<lparr>stack := s1\<rparr>, Inl (Errorf ''clone root fd: %w'' [] [err]))
           | (Inr rootClone, p2) \<Rightarrow>
               Continue (closeFile os p2 (currentDir w),
                         w\<lparr>stack := s1, currentDir := rootClone, currentPath := nextPath\<rparr>)))"

text \<open>The component is a directory (\<open>case os.ModeDir\<close>).\<close>

definition walkDirectory ::
    "('w, 'h) os \<Rightarrow> 'h osFile \<Rightarrow> string \<Rightarrow> 'w proc \<Rightarrow> 'h walk \<Rightarrow> string \<Rightarrow> string \<Rightarrow> 'h osFile
      \<Rightarrow> ('w, 'h) walkIter" where
  "walkDirectory os root logicalRootPath p w part nextPath nextDir =
     (let p1 = closeFile os p (currentDir w);
          w1 = w\<lparr>currentDir := nextDir, currentPath := nextPath\<rparr>
      in case PopPart os p1 (stack w1) part of
           (Some err, p2, s2) \<Rightarrow>
             Return (p2, w1\<lparr>stack := s2\<rparr>,
                     Inl (Errorf ''walking into directory %q failed: %w'' [part] [err]))
         | (None, p2, s2) \<Rightarrow>
             (let w2 = w1\<lparr>stack := s2\<rparr> in
              if part = ''..'' then
                (case checkProcSelfFdPath os p2 logicalRootPath root of
                   (Some err, p3) \<Rightarrow>
                     Return (p3, w2, Inl (Errorf ''root path moved during lookup: %w'' [] [err]))
                 | (None, p3) \<Rightarrow>
                     (let fullPath = logicalRootPath @ nextPath in
                      case checkProcSelfFdPath os p3 fullPath (currentDir w2) of
                        (Some err, p4) \<Rightarrow>
                          Return (p4, w2,
                                  Inl (Errorf ''walking into %q had unexpected result: %w''
                                         [part] [err]))
                      | (None, p4) \<Rightarrow> Continue (p4, w2)))
              else Continue (p2, w2)))"

text \<open>The component is a symlink (\<open>case os.ModeSymlink\<close>).\<close>

definition walkSymlink ::
    "('w, 'h) os \<Rightarrow> 'h osFile \<Rightarrow> string \<Rightarrow> string \<Rightarrow> 'w proc \<Rightarrow> 'h walk \<Rightarrow> string \<Rightarrow> string
      \<Rightarrow> 'h osFile \<Rightarrow> ('w, 'h) walkIter" where
  "walkSymlink os root logicalRootPath unsafePath p w part oldRemainingPath nextDir =
     (let p1 = closeFile os p nextDir in
      case readlinkatFile os p1 (currentDir w) part of
        (Inl err, p2) \<Rightarrow>
          Return (p2, w,
                  Inl (if errors_Is err (Errno EINVAL)
                       then Errorf ''%w: path component %q is invalid: %w''
                              [part] [errPossibleAttack, Errno ENOTDIR]
                       else err))
      | (Inr linkDest, p2) \<Rightarrow>
          (let w1 = w\<lparr>linksWalked := linksWalked w + 1\<rparr> in
           if linksWalked w1 > maxSymlinkLimit os
           then Return (p2, w1,
                        Inl (PathError ''partialLookupInRoot''
                               (logicalRootPath @ ''/'' @ unsafePath) ELOOP))
           else (case SwapLink os p2 (stack w1) part (currentDir w1) oldRemainingPath linkDest of
                   (Some err, p3, s3) \<Rightarrow>
                     Return (p3, w1\<lparr>stack := s3\<rparr>,
                             Inl (Errorf ''walking into symlink %q failed: push symlink: %w''
                                    [part] [err]))
                 | (None, p3, s3) \<Rightarrow>
                     (let w2 = w1\<lparr>stack := s3, remaining := linkDest @ ''/'' @ remaining w1\<rparr> in
                      if path_IsAbs linkDest then
                        (case dupFile os p3 root of
                           (Inl err, p4) \<Rightarrow>
                             Return (p4, w2, Inl (Errorf ''clone root fd: %w'' [] [err]))
                         | (Inr rootClone, p4) \<Rightarrow>
                             Continue (closeFile os p4 (currentDir w2),
                                       w2\<lparr>currentDir := rootClone, currentPath := ''/''\<rparr>))
                      else Continue (p3, w2)))))"

text \<open>Any other file type (the \<open>default\<close> of the switch on the mode).\<close>

definition walkOther ::
    "('w, 'h) os \<Rightarrow> 'w proc \<Rightarrow> 'h walk \<Rightarrow> string \<Rightarrow> 'h osFile \<Rightarrow> ('w, 'h) walkIter" where
  "walkOther os p w part nextDir =
     (let p1 = closeFile os p (currentDir w) in
      case PopPart os p1 (stack w) part of
        (Some err, p2, s2) \<Rightarrow>
          Return (p2, w\<lparr>stack := s2\<rparr>,
                  Inl (Errorf ''walking into non-directory %q failed: %w'' [part] [err]))
      | (None, p2, s2) \<Rightarrow>
          (case PopTopSymlink s2 of
             Some (oldDir, rp, s3) \<Rightarrow>
               Return (closeFile os p2 nextDir, w\<lparr>stack := s3\<rparr>, Inr (oldDir, rp))
           | None \<Rightarrow> Return (p2, w\<lparr>stack := s2\<rparr>, Inr (nextDir, remaining w))))"

text \<open>The component does not exist (\<open>errors.Is(err, os.ErrNotExist)\<close>).\<close>

definition walkNotExist ::
    "('w, 'h) os \<Rightarrow> 'w proc \<Rightarrow> 'h walk \<Rightarrow> string \<Rightarrow> ('w, 'h) walkIter" where
  "walkNotExist os p w oldRemainingPath =
     (case PopTopSymlink (stack w) of
        Some (oldDir, rp, s1) \<Rightarrow>
          Return (closeFile os p (currentDir w), w\<lparr>stack := s1\<rparr>, Inr (oldDir, rp))
      | None \<Rightarrow> Return (p, w, Inr (currentDir w, oldRemainingPath)))"

text \<open>
  The next path component and what follows it: the split at the first slash, or the
  whole string when it has none.
\<close>

definition nextPart :: "string \<Rightarrow> string \<times> string" where
  "nextPart rp =
     (case strings_IndexByte rp CHR ''/'' of
        None \<Rightarrow> (rp, [])
      | Some i \<Rightarrow> (take i rp, drop (i + 1) rp))"

text \<open>The body of the loop for a component that is not empty.\<close>

definition walkPart ::
    "('w, 'h) os \<Rightarrow> 'h osFile \<Rightarrow> string \<Rightarrow> string \<Rightarrow> 'w proc \<Rightarrow> 'h walk \<Rightarrow> string \<Rightarrow> string
      \<Rightarrow> ('w, 'h) walkIter" where
  "walkPart os root logicalRootPath unsafePath p w part oldRemainingPath =
     (let nextPath = path_Join [''/'', currentPath w, part] in
      if nextPath = ''/'' then walkIntoRoot os root p w part nextPath
      else (case openatFile os p (currentDir w) part of
              (Inr nextDir, p1) \<Rightarrow>
                (case statMode os p1 nextDir of
                   (Inl err, p2) \<Rightarrow>
                     Return (closeFile os p2 nextDir, w,
                             Inl (Errorf ''stat component %q: %w'' [part] [err]))
                 | (Inr ModeDir, p2) \<Rightarrow>
                     walkDirectory os root logicalRootPath p2 w part nextPath nextDir
                 | (Inr ModeSymlink, p2) \<Rightarrow>
                     walkSymlink os root logicalRootPath unsafePath p2 w part
                       oldRemainingPath nextDir
                 | (Inr ModeOther, p2) \<Rightarrow> walkOther os p2 w part nextDir)
            | (Inl err, p1) \<Rightarrow>
                if errors_Is err ErrNotExist then walkNotExist os p1 w oldRemainingPath
                else Return (p1, w, Inl err)))"

text \<open>The body of the loop \<open>for remainingPath != ""\<close>.\<close>

definition walkStep ::
    "('w, 'h) os \<Rightarrow> 'h osFile \<Rightarrow> string \<Rightarrow> string \<Rightarrow> 'w proc \<Rightarrow> 'h walk \<Rightarrow> ('w, 'h) walkIter" where
  "walkStep os root logicalRootPath unsafePath p w0 =
     (let oldRemainingPath = remaining w0;
          (part, rest) = nextPart oldRemainingPath;
          w = w0\<lparr>remaining := rest\<rparr>
      in if part = [] then Continue (p, w)
         else walkPart os root logicalRootPath unsafePath p w part oldRemainingPath)"

text \<open>
  Every iteration that goes on either follows a symlink, of which at most
  \<open>maxSymlinkLimit\<close> are followed, or leaves a shorter remaining path.
\<close>

definition walkMeasure :: "('w, 'h) os \<Rightarrow> 'h walk \<Rightarrow> nat \<times> nat" where
  "walkMeasure os w = (Suc (maxSymlinkLimit os) - linksWalked w, length (remaining w))"

function lookupLoop ::
    "('w, 'h) os \<Rightarrow> 'h osFile \<Rightarrow> string \<Rightarrow> string \<Rightarrow> 'w proc \<Rightarrow> 'h walk \<Rightarrow> 'h answer \<times> 'w proc" where
  "lookupLoop os root logicalRootPath unsafePath p w =
     (if remaining w = [] then deferred os p w (Inr (currentDir w, []))
      else (case walkStep os root logicalRootPath unsafePath p w of
              Continue (p', w') \<Rightarrow> lookupLoop os root logicalRootPath unsafePath p' w'
            | Return (p', w', res) \<Rightarrow> deferred os p' w' res))"
  by pat_completeness auto
termination lookupLoop
proof (relation "inv_image (less_than <*lex*> less_than)
    (\<lambda>(os, root, lrp, up, p, w). walkMeasure os w)")
  show "wf (inv_image (less_than <*lex*> less_than)
      (\<lambda>(os :: ('w, 'h) os, root :: 'h osFile, lrp :: string, up :: string, p :: 'w proc,
          w :: 'h walk). walkMeasure os w))"
    by (intro wf_inv_image wf_lex_prod wf_less_than)
next
  fix os :: "('w, 'h) os" and root :: "'h osFile" and lrp up :: string and p :: "'w proc"
    and w :: "'h walk" and x p' w'
  assume ne: "remaining w \<noteq> []"
    and st: "walkStep os root lrp up p w = Continue x" and x: "(p', w') = x"
  obtain part rest where nP: "nextPart (remaining w) = (part, rest)"
    by (cases "nextPart (remaining w)")
  have bound: "strings_IndexByte s c = Some i \<Longrightarrow> i < length s" for s :: string and c i
    by (induction s arbitrary: i) (auto split: if_splits)
  have short: "length rest < length (remaining w)"
    using ne nP bound [of "remaining w" "CHR ''/''"]
    by (auto simp: nextPart_def split: option.splits)
  have less: "(walkMeasure os w', walkMeasure os w) \<in> less_than <*lex*> less_than"
  proof (cases "part = []")
    case True
    with st x nP have "w' = w\<lparr>remaining := rest\<rparr>"
      by (auto simp: walkStep_def)
    with short show ?thesis by (simp add: walkMeasure_def)
  next
    case False
    with st x nP
    have "walkPart os root lrp up p (w\<lparr>remaining := rest\<rparr>) part (remaining w) = Continue (p', w')"
      by (auto simp: walkStep_def)
    then have "(linksWalked w' = linksWalked w \<and> remaining w' = rest)
        \<or> (linksWalked w' = Suc (linksWalked w) \<and> linksWalked w' \<le> maxSymlinkLimit os)"
      by (auto simp: walkPart_def walkIntoRoot_def walkDirectory_def walkSymlink_def
          walkOther_def walkNotExist_def Let_def
          split: if_splits prod.splits sum.splits option.splits fileMode.splits)
    with short show ?thesis by (auto simp: walkMeasure_def)
  qed
  then show "((os, root, lrp, up, p', w'), (os, root, lrp, up, p, w))
      \<in> inv_image (less_than <*lex*> less_than)
          (\<lambda>(os, root, lrp, up, p, w). walkMeasure os w)"
    by simp
qed

text \<open>\<open>filepath.ToSlash\<close> changes nothing on Linux, the only platform of the file.\<close>

definition filepath_ToSlash :: "string \<Rightarrow> string" where
  "filepath_ToSlash path = path"

definition partialLookupInRoot ::
    "('w, 'h) os \<Rightarrow> 'w proc \<Rightarrow> 'h osFile \<Rightarrow> string \<Rightarrow> 'h answer \<times> 'w proc" where
  "partialLookupInRoot os p root unsafePath0 =
     (let unsafePath = filepath_ToSlash unsafePath0 in
      if hasOpenat2 os then partialLookupOpenat2 os p root unsafePath
      else (case procSelfFdReadlink os p root of
              (Inl err, p1) \<Rightarrow> (Inl (Errorf ''get real root path: %w'' [] [err]), p1)
            | (Inr logicalRootPath, p1) \<Rightarrow>
                (case dupFile os p1 root of
                   (Inl err, p2) \<Rightarrow> (Inl (Errorf ''clone root fd: %w'' [] [err]), p2)
                 | (Inr rootClone, p2) \<Rightarrow>
                     lookupLoop os root logicalRootPath unsafePath p2
                       \<lparr>currentDir = rootClone, stack = [], linksWalked = 0,
                        currentPath = [], remaining = unsafePath\<rparr>)))"


text \<open>
  The loop with a budget of iterations: \<open>None\<close> when the budget runs out before a
  \<open>return\<close> is reached.
\<close>

fun lookupFuel ::
    "nat \<Rightarrow> ('w, 'h) os \<Rightarrow> 'h osFile \<Rightarrow> string \<Rightarrow> string \<Rightarrow> 'w proc \<Rightarrow> 'h walk
      \<Rightarrow> ('h answer \<times> 'w proc) option" where
  "lookupFuel 0 os root logicalRootPath unsafePath p w = None"
| "lookupFuel (Suc n) os root logicalRootPath unsafePath p w =
     (if remaining w = [] then Some (deferred os p w (Inr (currentDir w, [])))
      else (case walkStep os root logicalRootPath unsafePath p w of
              Continue (p', w') \<Rightarrow> lookupFuel n os root logicalRootPath unsafePath p' w'
            | Return (p', w', res) \<Rightarrow> Some (deferred os p' w' res)))"


section \<open>A file system at rest\<close>

text \<open>
  A world to run the walk in: a tree that nothing changes while the walk runs.  A
  location is the list of names from the top of the tree; a descriptor denotes a
  location.  Opening a name under a directory does not follow a symlink (the walk
  opens with \<open>O_PATH|O_NOFOLLOW\<close>); \<open>..\<close> is the directory above (the top of the tree is
  above itself) and \<open>.\<close> the directory itself.  The path of a descriptor, as
  \<open>/proc/self/fd\<close> gives it, is its location written with slashes.
\<close>

datatype node = Directory | Symlink string | Regular

type_synonym location = "string list"

type_synonym tree = "(location \<times> node) list"

definition treePath :: "location \<Rightarrow> string" where
  "treePath d = (if d = [] then ''/'' else concat (map (\<lambda>name. ''/'' @ name) d))"

definition treeOpenat :: "tree \<Rightarrow> location \<Rightarrow> string \<Rightarrow> error + location" where
  "treeOpenat t d name =
     (if map_of t d \<noteq> Some Directory then Inl (Errno ENOTDIR)
      else if name = ''..'' then Inr (butlast d)
      else if name = ''.'' then Inr d
      else (case map_of t (d @ [name]) of
              None \<Rightarrow> Inl (Errno ENOENT)
            | Some n \<Rightarrow> Inr (d @ [name])))"

definition treeFstat :: "tree \<Rightarrow> location \<Rightarrow> error + fileMode" where
  "treeFstat t d =
     (case map_of t d of
        None \<Rightarrow> Inl (Errno ENOENT)
      | Some Directory \<Rightarrow> Inr ModeDir
      | Some (Symlink target) \<Rightarrow> Inr ModeSymlink
      | Some Regular \<Rightarrow> Inr ModeOther)"

definition treeReadlinkat :: "tree \<Rightarrow> location \<Rightarrow> string \<Rightarrow> error + string" where
  "treeReadlinkat t d name =
     (case map_of t (d @ [name]) of
        None \<Rightarrow> Inl (Errno ENOENT)
      | Some (Symlink target) \<Rightarrow> Inr target
      | Some n \<Rightarrow> Inl (Errno EINVAL))"

definition treeCheck :: "string \<Rightarrow> location \<Rightarrow> error option" where
  "treeCheck path d =
     (if treePath d = path then None
      else Some (Errorf ''%w: handle path %q does not match expected path %q''
                   [treePath d, path] [errPossibleAttack]))"

definition treeOs :: "tree \<Rightarrow> nat \<Rightarrow> (unit, location) os" where
  "treeOs t limit =
     \<lparr>hasOpenat2 = False,
      maxSymlinkLimit = limit,
      sys_dup = (\<lambda>k d. (Inr d, k)),
      sys_openat = (\<lambda>k d name. (treeOpenat t d name, k)),
      sys_fstat = (\<lambda>k d. (treeFstat t d, k)),
      sys_readlinkat = (\<lambda>k d name. (treeReadlinkat t d name, k)),
      sys_procSelfFdReadlink = (\<lambda>k d. (Inr (treePath d), k)),
      sys_checkProcSelfFdPath = (\<lambda>k path d. (treeCheck path d, k)),
      sys_close = (\<lambda>k d. k),
      partialLookupOpenat2 = (\<lambda>p root path. (Inl (Errno EIO), p))\<rparr>"

text \<open>A process that holds one open file, the root handed to the walk.\<close>

definition procWith :: "nat \<Rightarrow> unit proc" where
  "procWith n = \<lparr>kernel = (), nextFile = Suc n, openFiles = {n}\<rparr>"


text \<open>A check that reports a mismatch whatever it is asked.\<close>

definition alwaysMismatch :: "unit \<Rightarrow> string \<Rightarrow> location \<Rightarrow> error option \<times> unit" where
  "alwaysMismatch k path d =
     (Some (Errorf ''%w: handle path %q does not match expected path %q''
              [treePath d, path] [errPossibleAttack]), k)"


section \<open>Invariants of the walk\<close>

text \<open>
  The predicates below are used in the proofs only: what holds of the state of the
  walk between two iterations, and what then holds of the answer.
\<close>

text \<open>The components of a path that are not empty, as \<open>push\<close> computes them.\<close>

definition slashParts :: "string \<Rightarrow> string list" where
  "slashParts s = filter (\<lambda>part. part \<noteq> []) (strings_Split s CHR ''/'')"

text \<open>
  What the stack still expects, innermost symlink first: the unwalked components of
  the tail entry, then those of the entry before it, and so on.
\<close>

definition unwalked :: "'h symlinkStack \<Rightarrow> string list" where
  "unwalked st = concat (rev (map linkUnwalked st))"

text \<open>
  \<open>chainInv path st rem\<close>, between two iterations: the remaining path \<open>rem\<close> is what is
  left of the symlink targets spliced in so far (\<open>l\<close>, empty or ending with a slash),
  followed by a suffix \<open>s\<close> of the request path; the components of \<open>l\<close> are those the
  stack expects; and the entry at the front of the stack, when there is one, saved a
  suffix of the request path.
\<close>

definition chainInv :: "string \<Rightarrow> 'h symlinkStack \<Rightarrow> string \<Rightarrow> bool" where
  "chainInv path st rem =
     (\<exists>l s. rem = l @ s \<and> suffix s path \<and> (l = [] \<or> last l = CHR ''/'')
        \<and> slashParts l = unwalked st
        \<and> (st = [] \<or> suffix (remainingPath (hd st)) path))"

text \<open>
  \<open>partInv path st part rest old\<close>, inside an iteration, once the component \<open>part\<close> has
  been split off \<open>old\<close>, leaving \<open>rest\<close>.
\<close>

definition partInv :: "string \<Rightarrow> 'h symlinkStack \<Rightarrow> string \<Rightarrow> string \<Rightarrow> string \<Rightarrow> bool" where
  "partInv path st part rest old =
     (if st = [] then suffix old path \<and> suffix rest path
      else suffix (remainingPath (hd st)) path
         \<and> (linkUnwalked (last st) = []
            \<or> (\<exists>l s. rest = l @ s \<and> suffix s path \<and> (l = [] \<or> last l = CHR ''/'')
                  \<and> unwalked st = part # slashParts l)))"

definition answerSuffix :: "string \<Rightarrow> 'h answer \<Rightarrow> bool" where
  "answerSuffix path res =
     (case res of
        Inl err \<Rightarrow> True
      | Inr (f, rp) \<Rightarrow> (\<exists>k s. rp = replicate k CHR ''/'' @ s \<and> suffix s path))"

definition iterSuffix :: "string \<Rightarrow> ('w, 'h) walkIter \<Rightarrow> bool" where
  "iterSuffix path it =
     (case it of
        Continue (p', w') \<Rightarrow> chainInv path (stack w') (remaining w')
      | Return (p', w', res) \<Rightarrow> answerSuffix path res)"

text \<open>
  \<open>sameBelow n P p\<close>: every identity below \<open>n\<close> was handed out before, and among those
  the open ones are exactly \<open>P\<close>.  \<open>walkOwned\<close>: this holds, and every file the walk
  keeps (the current directory, the directories parked in the stack) has an identity
  from \<open>n\<close> on.
\<close>

definition sameBelow :: "nat \<Rightarrow> nat set \<Rightarrow> 'w proc \<Rightarrow> bool" where
  "sameBelow n P p = (n \<le> nextFile p \<and> openFiles p \<inter> {..<n} = P)"

definition stackOwned :: "nat \<Rightarrow> 'h symlinkStack \<Rightarrow> bool" where
  "stackOwned n s = list_all (\<lambda>e. n \<le> ident (dir e)) s"

definition walkOwned :: "nat \<Rightarrow> nat set \<Rightarrow> 'w proc \<Rightarrow> 'h walk \<Rightarrow> bool" where
  "walkOwned n P p w =
     (sameBelow n P p \<and> n \<le> ident (currentDir w) \<and> stackOwned n (stack w))"

definition answerOwned :: "nat \<Rightarrow> 'h answer \<Rightarrow> bool" where
  "answerOwned n res = (case res of Inl err \<Rightarrow> True | Inr (f, rp) \<Rightarrow> n \<le> ident f)"

definition iterOwned :: "nat \<Rightarrow> nat set \<Rightarrow> ('w, 'h) walkIter \<Rightarrow> bool" where
  "iterOwned n P it =
     (case it of
        Continue (p', w') \<Rightarrow> walkOwned n P p' w'
      | Return (p', w', res) \<Rightarrow> walkOwned n P p' w' \<and> answerOwned n res)"

text \<open>
  Names a directory entry can have: not empty, no slash, and neither \<open>.\<close> nor \<open>..\<close>.
\<close>

definition properName :: "string \<Rightarrow> bool" where
  "properName c = (c \<noteq> [] \<and> CHR ''/'' \<notin> set c \<and> c \<noteq> ''.'' \<and> c \<noteq> ''..'')"


text \<open>
  \<open>locInv R w\<close>, in the file system at rest: the current directory is at the location
  of the root, \<open>R\<close>, followed by the names of the logical path, and every directory
  parked in the stack is at or under \<open>R\<close>.
\<close>

definition stackIn :: "location \<Rightarrow> location symlinkStack \<Rightarrow> bool" where
  "stackIn R st = list_all (\<lambda>e. prefix R (desc (dir e))) st"

definition locInv :: "location \<Rightarrow> location walk \<Rightarrow> bool" where
  "locInv R w =
     (\<exists>cs. desc (currentDir w) = R @ cs \<and> list_all properName cs
        \<and> (currentPath w = treePath cs \<or> (currentPath w = [] \<and> cs = []))
        \<and> stackIn R (stack w))"

definition answerIn :: "location \<Rightarrow> location answer \<Rightarrow> bool" where
  "answerIn R res = (case res of Inl err \<Rightarrow> True | Inr (f, rp) \<Rightarrow> prefix R (desc f))"

definition iterIn :: "location \<Rightarrow> (unit, location) walkIter \<Rightarrow> bool" where
  "iterIn R it =
     (case it of
        Continue (p', w') \<Rightarrow> locInv R w'
      | Return (p', w', res) \<Rightarrow> answerIn R res)"


section \<open>The stack operations\<close>

declare dropEmptyTail.simps [simp del]
declare lookupLoop.simps [simp del]

lemma dropEmptyTail_Nil: "dropEmptyTail os p [] = (p, [])"
  by (simp add: dropEmptyTail.simps)

lemma dropEmptyTail_snoc:
  "dropEmptyTail os p (s @ [e]) =
     (if linkUnwalked e \<noteq> [] then (p, s @ [e]) else dropEmptyTail os (entry_Close os p e) s)"
  by (subst dropEmptyTail.simps) simp

lemma dropEmptyTail_eq:
  "dropEmptyTail os p s =
     (foldl (entry_Close os) p (takeWhile (\<lambda>e. linkUnwalked e = []) (rev s)),
      rev (dropWhile (\<lambda>e. linkUnwalked e = []) (rev s)))"
  by (induction s arbitrary: p rule: rev_induct) (simp_all add: dropEmptyTail_Nil dropEmptyTail_snoc)

lemma popPart_Nil: "popPart [] part = (Some errEmptyStack, [])"
  by (simp add: popPart_def IsEmpty_def)

lemma popPart_snoc:
  "popPart (s @ [e]) part =
     (if linkUnwalked e = []
      then (Some (Errorf ''%w: trying to pop component %q of empty stack entry %s''
                    [part] [errBrokenSymlinkStack]), s @ [e])
      else if hd (linkUnwalked e) \<noteq> part
      then (Some (Errorf ''%w: trying to pop component %q but the last stack entry is %s (%q)''
                    [part, hd (linkUnwalked e)] [errBrokenSymlinkStack]), s @ [e])
      else (None, s @ [e\<lparr>linkUnwalked := tl (linkUnwalked e)\<rparr>]))"
  by (simp add: popPart_def IsEmpty_def Let_def)


text \<open>
  C8.  \<open>PopPart\<close> on an empty stack succeeds and leaves the stack (and every open file)
  as it is.  On a stack that is not empty it succeeds exactly when the tail entry has
  a component left to walk and its first one is the given component; it then removes
  that component and after it closes and drops the entries at the tail that have
  nothing left.  Otherwise (another component at the head of the tail entry, or a
  tail entry with nothing left) it fails with an error that wraps
  \<open>errBrokenSymlinkStack\<close>, the internal-consistency error, and changes nothing.
\<close>

theorem PopPart_result:
  "PopPart os p [] part = (None, p, [])
   \<and> (s \<noteq> [] \<longrightarrow>
        (fst (PopPart os p s part) = None)
          = (linkUnwalked (last s) \<noteq> [] \<and> hd (linkUnwalked (last s)) = part))
   \<and> (s \<noteq> [] \<and> linkUnwalked (last s) \<noteq> [] \<and> hd (linkUnwalked (last s)) = part \<longrightarrow>
        PopPart os p s part =
          (let s' = butlast s @ [(last s)\<lparr>linkUnwalked := tl (linkUnwalked (last s))\<rparr>]
           in (None,
               foldl (entry_Close os) p (takeWhile (\<lambda>e. linkUnwalked e = []) (rev s')),
               rev (dropWhile (\<lambda>e. linkUnwalked e = []) (rev s')))))
   \<and> (s \<noteq> [] \<and> \<not> (linkUnwalked (last s) \<noteq> [] \<and> hd (linkUnwalked (last s)) = part) \<longrightarrow>
        (\<exists>err. PopPart os p s part = (Some err, p, s) \<and> errors_Is err errBrokenSymlinkStack))"
proof -
  have empty: "PopPart os p [] part = (None, p, [])"
    by (simp add: PopPart_def popPart_Nil)
  have nonempty: "s \<noteq> [] \<Longrightarrow>
      PopPart os p s part =
        (if linkUnwalked (last s) \<noteq> [] \<and> hd (linkUnwalked (last s)) = part
         then (case dropEmptyTail os p
                      (butlast s @ [(last s)\<lparr>linkUnwalked := tl (linkUnwalked (last s))\<rparr>]) of
                 (p', s'') \<Rightarrow> (None, p', s''))
         else if linkUnwalked (last s) = []
         then (Some (Errorf ''%w: trying to pop component %q of empty stack entry %s''
                    [part] [errBrokenSymlinkStack]), p, s)
         else (Some (Errorf ''%w: trying to pop component %q but the last stack entry is %s (%q)''
                    [part, hd (linkUnwalked (last s))] [errBrokenSymlinkStack]), p, s))"
    by (cases s rule: rev_cases) (auto simp: PopPart_def popPart_snoc)
  show ?thesis
    using empty nonempty
    by (auto simp: dropEmptyTail_eq Let_def split: prod.splits)
qed

theorem PopPart_result_witness:
  "[\<lparr>dir = File 1 [], remainingPath = ''a/x'', linkUnwalked = []\<rparr>,
    \<lparr>dir = File 2 [], remainingPath = ''b'', linkUnwalked = [''c'']\<rparr>] \<noteq> []
   \<and> PopPart (treeOs [] 0) \<lparr>kernel = (), nextFile = 3, openFiles = {1, 2}\<rparr>
        [\<lparr>dir = File 1 [], remainingPath = ''a/x'', linkUnwalked = []\<rparr>,
         \<lparr>dir = File 2 [], remainingPath = ''b'', linkUnwalked = [''c'']\<rparr>] ''c''
       = (None, \<lparr>kernel = (), nextFile = 3, openFiles = {}\<rparr>, [])
   \<and> (\<exists>err. PopPart (treeOs [] 0) \<lparr>kernel = (), nextFile = 3, openFiles = {1, 2}\<rparr>
        [\<lparr>dir = File 1 [], remainingPath = ''a/x'', linkUnwalked = []\<rparr>,
         \<lparr>dir = File 2 [], remainingPath = ''b'', linkUnwalked = [''c'']\<rparr>] ''d''
       = (Some err, \<lparr>kernel = (), nextFile = 3, openFiles = {1, 2}\<rparr>,
          [\<lparr>dir = File 1 [], remainingPath = ''a/x'', linkUnwalked = []\<rparr>,
           \<lparr>dir = File 2 [], remainingPath = ''b'', linkUnwalked = [''c'']\<rparr>])
       \<and> errors_Is err errBrokenSymlinkStack)"
  using PopPart_result
    [of "treeOs [] 0" "\<lparr>kernel = (), nextFile = 3, openFiles = {1, 2}\<rparr>" "''c''"
        "[\<lparr>dir = File 1 [], remainingPath = ''a/x'', linkUnwalked = []\<rparr>,
          \<lparr>dir = File 2 [], remainingPath = ''b'', linkUnwalked = [''c'']\<rparr>]"]
    PopPart_result
    [of "treeOs [] 0" "\<lparr>kernel = (), nextFile = 3, openFiles = {1, 2}\<rparr>" "''d''"
        "[\<lparr>dir = File 1 [], remainingPath = ''a/x'', linkUnwalked = []\<rparr>,
          \<lparr>dir = File 2 [], remainingPath = ''b'', linkUnwalked = [''c'']\<rparr>]"]
  by (auto simp: entry_Close_def closeFile_def treeOs_def)


section \<open>The loop\<close>

lemma lookupLoop_done:
  "remaining w = [] \<Longrightarrow> lookupLoop os root lrp up p w = deferred os p w (Inr (currentDir w, []))"
  by (subst lookupLoop.simps) simp

lemma lookupLoop_Continue:
  "remaining w \<noteq> [] \<Longrightarrow> walkStep os root lrp up p w = Continue (p', w')
    \<Longrightarrow> lookupLoop os root lrp up p w = lookupLoop os root lrp up p' w'"
  by (subst lookupLoop.simps) simp

lemma lookupLoop_Return:
  "remaining w \<noteq> [] \<Longrightarrow> walkStep os root lrp up p w = Return (p', w', res)
    \<Longrightarrow> lookupLoop os root lrp up p w = deferred os p' w' res"
  by (subst lookupLoop.simps) simp

lemma walkStep_skip:
  "nextPart (remaining w) = ([], rest)
    \<Longrightarrow> walkStep os root lrp up p w = Continue (p, w\<lparr>remaining := rest\<rparr>)"
  by (simp add: walkStep_def)

lemma walkStep_part:
  "nextPart (remaining w) = (part, rest) \<Longrightarrow> part \<noteq> []
    \<Longrightarrow> walkStep os root lrp up p w
        = walkPart os root lrp up p (w\<lparr>remaining := rest\<rparr>) part (remaining w)"
  by (simp add: walkStep_def)

lemma walkSymlink_Continue:
  "walkSymlink os root lrp up p w part old nextDir = Continue (p', w')
    \<Longrightarrow> linksWalked w' = Suc (linksWalked w) \<and> linksWalked w' \<le> maxSymlinkLimit os"
  by (auto simp: walkSymlink_def Let_def split: prod.splits option.splits sum.splits if_splits)

text \<open>
  The proof rule of the loop: a property of the state that every iteration that goes
  on keeps, and that gives the wanted property of the result at every \<open>return\<close>.
\<close>

lemma lookupLoop_induct_rule:
  assumes inv: "I p w"
    and step: "\<And>p w p' w'. I p w \<Longrightarrow> remaining w \<noteq> []
        \<Longrightarrow> walkStep os root lrp up p w = Continue (p', w') \<Longrightarrow> I p' w'"
    and ret: "\<And>p w p' w' res. I p w \<Longrightarrow> remaining w \<noteq> []
        \<Longrightarrow> walkStep os root lrp up p w = Return (p', w', res) \<Longrightarrow> Q (deferred os p' w' res)"
    and fin: "\<And>p w. I p w \<Longrightarrow> remaining w = []
        \<Longrightarrow> Q (deferred os p w (Inr (currentDir w, [])))"
  shows "Q (lookupLoop os root lrp up p w)"
proof -
  have "os' = os \<longrightarrow> root' = root \<longrightarrow> lrp' = lrp \<longrightarrow> up' = up \<longrightarrow> I p w
      \<longrightarrow> Q (lookupLoop os' root' lrp' up' p w)" for os' root' lrp' up'
  proof (induction os' root' lrp' up' p w rule: lookupLoop.induct)
    case (1 os' root' lrp' up' p w)
    show ?case
    proof (intro impI)
      assume eq: "os' = os" "root' = root" "lrp' = lrp" "up' = up" and i: "I p w"
      note IH = "1.IH" [unfolded eq]
      show "Q (lookupLoop os' root' lrp' up' p w)"
        unfolding eq
      proof (cases "remaining w = []")
        case True
        then show "Q (lookupLoop os root lrp up p w)"
          using fin [OF i] by (simp only: lookupLoop_done)
      next
        case False
        show "Q (lookupLoop os root lrp up p w)"
        proof (cases "walkStep os root lrp up p w")
          case (Continue x)
          obtain p' w' where x: "x = (p', w')" by (cases x)
          have "I p' w'" using step [OF i False Continue [unfolded x]] .
          with IH [OF False Continue [unfolded x] refl]
          have "Q (lookupLoop os root lrp up p' w')" by blast
          then show ?thesis
            by (simp only: lookupLoop_Continue [OF False Continue [unfolded x]])
        next
          case (Return x)
          obtain p' w' res where x: "x = (p', w', res)" by (cases x)
          from ret [OF i False Return [unfolded x]] show ?thesis
            by (simp only: lookupLoop_Return [OF False Return [unfolded x]])
        qed
      qed
    qed
  qed
  then show ?thesis using inv by simp
qed

section \<open>Paths with no component\<close>

lemma nextPart_slash: "nextPart (CHR ''/'' # rest) = ([], rest)"
  by (simp add: nextPart_def)

lemma lookupLoop_slashes:
  "set (remaining w) \<subseteq> {CHR ''/''}
    \<Longrightarrow> lookupLoop os root lrp up p w
        = deferred os p (w\<lparr>remaining := []\<rparr>) (Inr (currentDir w, []))"
proof (induction "remaining w" arbitrary: w)
  case Nil
  then show ?case by (simp add: lookupLoop_done [of w] deferred_def)
next
  case (Cons c rest)
  from Cons.hyps(2) Cons.prems have rw: "remaining w = CHR ''/'' # rest"
    by (metis insert_subset list.simps(15) singletonD)
  have st: "walkStep os root lrp up p w = Continue (p, w\<lparr>remaining := rest\<rparr>)"
    by (rule walkStep_skip) (simp add: rw nextPart_slash)
  have "lookupLoop os root lrp up p w = lookupLoop os root lrp up p (w\<lparr>remaining := rest\<rparr>)"
    by (rule lookupLoop_Continue [OF _ st]) (simp add: rw)
  also have "\<dots> = deferred os p (w\<lparr>remaining := rest, remaining := []\<rparr>)
      (Inr (currentDir (w\<lparr>remaining := rest\<rparr>), []))"
    using Cons.prems rw by (intro Cons.hyps(1)) auto
  finally show ?case by simp
qed

text \<open>
  C10.  For a request path that is empty or made of slashes only, when the native
  fast path is not available and the two calls before the loop succeed (the path of
  the root is read, the root is duplicated), \<open>partialLookupInRoot\<close> returns without
  error the duplicate of the root, a new open file, with an empty remaining path.
  The state of the world it leaves is the one the duplication left: no component
  was opened, nothing else was asked of the system.
\<close>

theorem lookup_only_slashes:
  assumes "set path \<subseteq> {CHR ''/''}"
    and "\<not> hasOpenat2 os"
    and "sys_procSelfFdReadlink os (kernel p) (desc root) = (Inr lrp, k1)"
    and "sys_dup os k1 (desc root) = (Inr h, k2)"
  shows "partialLookupInRoot os p root path =
           (Inr (File (nextFile p) h, []),
            p\<lparr>kernel := k2, nextFile := Suc (nextFile p),
              openFiles := insert (nextFile p) (openFiles p)\<rparr>)"
  using assms
  by (simp add: partialLookupInRoot_def filepath_ToSlash_def procSelfFdReadlink_def dupFile_def
      newFile_def lookupLoop_slashes deferred_def)

theorem lookup_only_slashes_witness:
  "set ''//'' \<subseteq> {CHR ''/''}
   \<and> partialLookupInRoot (treeOs [([], Directory), ([''r''], Directory)] 255) (procWith 0)
        (File 0 [''r'']) ''//''
     = (Inr (File 1 [''r''], []), \<lparr>kernel = (), nextFile = 2, openFiles = {1, 0}\<rparr>)"
  using lookup_only_slashes
    [of "''//''" "treeOs [([], Directory), ([''r''], Directory)] 255" "procWith 0"
        "File 0 [''r'']" "''/r''" "()" "[''r'']" "()"]
  by (simp add: treeOs_def procWith_def treePath_def)

section \<open>Dangling chains\<close>

lemmas walk_defs =
  partialLookupInRoot_def filepath_ToSlash_def walkStep_def walkPart_def walkIntoRoot_def
  walkDirectory_def walkSymlink_def walkOther_def walkNotExist_def deferred_def nextPart_def
  dupFile_def openatFile_def closeFile_def statMode_def readlinkatFile_def
  procSelfFdReadlink_def checkProcSelfFdPath_def newFile_def PopPart_def popPart_def push_def
  SwapLink_def PopTopSymlink_def IsEmpty_def entry_Close_def path_Join_def path_Clean_def
  path_IsAbs_def Let_def

lemma treeOs_sel:
  "hasOpenat2 (treeOs t limit) = False"
  "maxSymlinkLimit (treeOs t limit) = limit"
  "sys_dup (treeOs t limit) = (\<lambda>k d. (Inr d, k))"
  "sys_openat (treeOs t limit) = (\<lambda>k d name. (treeOpenat t d name, k))"
  "sys_fstat (treeOs t limit) = (\<lambda>k d. (treeFstat t d, k))"
  "sys_readlinkat (treeOs t limit) = (\<lambda>k d name. (treeReadlinkat t d name, k))"
  "sys_procSelfFdReadlink (treeOs t limit) = (\<lambda>k d. (Inr (treePath d), k))"
  "sys_checkProcSelfFdPath (treeOs t limit) = (\<lambda>k path d. (treeCheck path d, k))"
  "sys_close (treeOs t limit) = (\<lambda>k d. k)"
  by (simp_all add: treeOs_def)

lemmas tree_defs =
  treeOs_sel treeOpenat_def treeFstat_def treeReadlinkat_def treeCheck_def treePath_def
  procWith_def

lemma lookupLoop_notExist_dangling:
  assumes "remaining w \<noteq> []" and "nextPart (remaining w) = (part, rest)" and "part \<noteq> []"
    and "path_Join [''/'', currentPath w, part] \<noteq> ''/''"
    and "openatFile os p (currentDir w) part = (Inl err, p1)"
    and "errors_Is err ErrNotExist"
    and "stack w = e # es"
  shows "lookupLoop os root lrp up p w =
           (Inr (dir e, remainingPath e), stack_Close os (closeFile os p1 (currentDir w)) es)"
proof -
  have "walkStep os root lrp up p w =
      Return (closeFile os p1 (currentDir w), w\<lparr>remaining := rest, stack := es\<rparr>,
              Inr (dir e, remainingPath e))"
    using assms
    by (simp add: walkStep_part walkPart_def walkNotExist_def PopTopSymlink_def IsEmpty_def)
  from lookupLoop_Return [OF assms(1) this] show ?thesis
    by (simp add: deferred_def)
qed

lemma lookupLoop_other_dangling:
  assumes "remaining w \<noteq> []" and "nextPart (remaining w) = (part, rest)" and "part \<noteq> []"
    and "path_Join [''/'', currentPath w, part] \<noteq> ''/''"
    and "openatFile os p (currentDir w) part = (Inr nextDir, p1)"
    and "statMode os p1 nextDir = (Inr ModeOther, p2)"
    and "PopPart os (closeFile os p2 (currentDir w)) (stack w) part = (None, p3, e # es)"
  shows "lookupLoop os root lrp up p w =
           (Inr (dir e, remainingPath e), stack_Close os (closeFile os p3 nextDir) es)"
proof -
  have "walkStep os root lrp up p w =
      Return (closeFile os p3 nextDir, w\<lparr>remaining := rest, stack := es\<rparr>,
              Inr (dir e, remainingPath e))"
    using assms
    by (simp add: walkStep_part walkPart_def walkOther_def PopTopSymlink_def IsEmpty_def)
  from lookupLoop_Return [OF assms(1) this] show ?thesis
    by (simp add: deferred_def)
qed

lemma dangling_example:
  "partialLookupInRoot
     (treeOs [([], Directory), ([''r''], Directory), ([''r'', ''a''], Symlink ''b/c''),
              ([''r'', ''b''], Directory)] 255)
     (procWith 0) (File 0 [''r'']) ''a''
   = (Inr (File 3 [''r''], ''a''), \<lparr>kernel = (), nextFile = 5, openFiles = {3, 0}\<rparr>)"
  by (simp add: walk_defs tree_defs lookupLoop.simps dropEmptyTail.simps) auto


text \<open>
  C2.  Dangling-chain attribution.  When the next component does not exist under the
  current directory and the stack is not empty, the walk returns without error the
  directory and the remaining path saved in the entry at the front of the stack, the
  one pushed first.  The same holds when the component is neither a directory nor a
  symlink and the stack, after the component has been popped from it, is not empty.
  In the file system with the directory \<open>/r/b\<close> and the symlink \<open>/r/a -> b/c\<close> and no
  \<open>/r/b/c\<close>, the walk from \<open>/r\<close> along \<open>a\<close> returns a duplicate of the root, at \<open>/r\<close>,
  with the remaining path \<open>a\<close>.
\<close>

theorem dangling_chain_attribution:
  "(remaining w \<noteq> [] \<and> nextPart (remaining w) = (part, rest) \<and> part \<noteq> []
      \<and> path_Join [''/'', currentPath w, part] \<noteq> ''/''
      \<and> openatFile os p (currentDir w) part = (Inl err, pa) \<and> errors_Is err ErrNotExist
      \<and> stack w = e # es
    \<longrightarrow> lookupLoop os root lrp up p w =
          (Inr (dir e, remainingPath e), stack_Close os (closeFile os pa (currentDir w)) es))
   \<and> (remaining w \<noteq> [] \<and> nextPart (remaining w) = (part, rest) \<and> part \<noteq> []
      \<and> path_Join [''/'', currentPath w, part] \<noteq> ''/''
      \<and> openatFile os p (currentDir w) part = (Inr nextDir, pa)
      \<and> statMode os pa nextDir = (Inr ModeOther, pb)
      \<and> PopPart os (closeFile os pb (currentDir w)) (stack w) part = (None, pc, e # es)
    \<longrightarrow> lookupLoop os root lrp up p w =
          (Inr (dir e, remainingPath e), stack_Close os (closeFile os pc nextDir) es))
   \<and> partialLookupInRoot
        (treeOs [([], Directory), ([''r''], Directory), ([''r'', ''a''], Symlink ''b/c''),
                 ([''r'', ''b''], Directory)] 255)
        (procWith 0) (File 0 [''r'']) ''a''
      = (Inr (File 3 [''r''], ''a''), \<lparr>kernel = (), nextFile = 5, openFiles = {3, 0}\<rparr>)"
  using lookupLoop_notExist_dangling [of w part rest os p err pa e es root lrp up]
    lookupLoop_other_dangling [of w part rest os p nextDir pa pb pc e es root lrp up]
    dangling_example
  by blast

theorem dangling_chain_attribution_witness:
  "lookupLoop
     (treeOs [([], Directory), ([''r''], Directory), ([''r'', ''a''], Symlink ''b/c''),
              ([''r'', ''b''], Directory)] 255)
     (File 0 [''r'']) ''/r'' ''a''
     \<lparr>kernel = (), nextFile = 5, openFiles = {0, 3, 4}\<rparr>
     \<lparr>currentDir = File 4 [''r'', ''b''],
      stack = [\<lparr>dir = File 3 [''r''], remainingPath = ''a'', linkUnwalked = [''c'']\<rparr>],
      linksWalked = 1, currentPath = ''/b'', remaining = ''c/''\<rparr>
   = (Inr (File 3 [''r''], ''a''), \<lparr>kernel = (), nextFile = 5, openFiles = {0, 3}\<rparr>)
   \<and> lookupLoop
     (treeOs [([], Directory), ([''r''], Directory), ([''r'', ''a''], Symlink ''f/x''),
              ([''r'', ''f''], Regular)] 255)
     (File 0 [''r'']) ''/r'' ''a''
     \<lparr>kernel = (), nextFile = 4, openFiles = {0, 1, 3}\<rparr>
     \<lparr>currentDir = File 1 [''r''],
      stack = [\<lparr>dir = File 3 [''r''], remainingPath = ''a'', linkUnwalked = [''f'', ''x'']\<rparr>],
      linksWalked = 1, currentPath = [], remaining = ''f/x/''\<rparr>
   = (Inr (File 3 [''r''], ''a''), \<lparr>kernel = (), nextFile = 5, openFiles = {0, 3}\<rparr>)"
  using dangling_chain_attribution
    [where os = "treeOs [([], Directory), ([''r''], Directory),
                         ([''r'', ''a''], Symlink ''b/c''), ([''r'', ''b''], Directory)] 255"
       and root = "File 0 [''r'']" and lrp = "''/r''" and up = "''a''"
       and p = "\<lparr>kernel = (), nextFile = 5, openFiles = {0, 3, 4}\<rparr>"
       and w = "\<lparr>currentDir = File 4 [''r'', ''b''],
                 stack = [\<lparr>dir = File 3 [''r''], remainingPath = ''a'',
                           linkUnwalked = [''c'']\<rparr>],
                 linksWalked = 1, currentPath = ''/b'', remaining = ''c/''\<rparr>"
       and part = "''c''" and rest = "[]" and err = "Errno ENOENT"
       and pa = "\<lparr>kernel = (), nextFile = 5, openFiles = {0, 3, 4}\<rparr>"
       and e = "\<lparr>dir = File 3 [''r''], remainingPath = ''a'', linkUnwalked = [''c'']\<rparr>"
       and es = "[]"]
    dangling_chain_attribution
    [where os = "treeOs [([], Directory), ([''r''], Directory),
                         ([''r'', ''a''], Symlink ''f/x''), ([''r'', ''f''], Regular)] 255"
       and root = "File 0 [''r'']" and lrp = "''/r''" and up = "''a''"
       and p = "\<lparr>kernel = (), nextFile = 4, openFiles = {0, 1, 3}\<rparr>"
       and w = "\<lparr>currentDir = File 1 [''r''],
                 stack = [\<lparr>dir = File 3 [''r''], remainingPath = ''a'',
                           linkUnwalked = [''f'', ''x'']\<rparr>],
                 linksWalked = 1, currentPath = [], remaining = ''f/x/''\<rparr>"
       and part = "''f''" and rest = "''x/''" and nextDir = "File 4 [''r'', ''f'']"
       and pa = "\<lparr>kernel = (), nextFile = 5, openFiles = {4, 0, 1, 3}\<rparr>"
       and pb = "\<lparr>kernel = (), nextFile = 5, openFiles = {4, 0, 1, 3}\<rparr>"
       and pc = "\<lparr>kernel = (), nextFile = 5, openFiles = {4, 0, 3}\<rparr>"
       and e = "\<lparr>dir = File 3 [''r''], remainingPath = ''a'', linkUnwalked = [''x'']\<rparr>"
       and es = "[]"]
  by (simp add: walk_defs tree_defs dropEmptyTail.simps insert_Diff_if)

section \<open>Tail-chained symlinks\<close>






section \<open>The bound on symlinks\<close>

lemma lookupFuel_enough:
  "\<exists>n. lookupFuel n os root lrp up p w = Some (lookupLoop os root lrp up p w)"
proof (induction os root lrp up p w rule: lookupLoop.induct)
  case (1 os root lrp up p w)
  show ?case
  proof (cases "remaining w = []")
    case True
    then have "lookupFuel (Suc 0) os root lrp up p w = Some (lookupLoop os root lrp up p w)"
      by (simp add: lookupLoop_done)
    then show ?thesis ..
  next
    case False
    show ?thesis
    proof (cases "walkStep os root lrp up p w")
      case (Continue x)
      obtain p' w' where x: "x = (p', w')" by (cases x)
      from "1.IH" [OF False Continue, of p' w'] x obtain n
        where "lookupFuel n os root lrp up p' w' = Some (lookupLoop os root lrp up p' w')"
        by auto
      then have "lookupFuel (Suc n) os root lrp up p w = Some (lookupLoop os root lrp up p w)"
        using False Continue x lookupLoop_Continue [OF False Continue [unfolded x]] by simp
      then show ?thesis ..
    next
      case (Return x)
      obtain p' w' res where x: "x = (p', w', res)" by (cases x)
      have "lookupFuel (Suc 0) os root lrp up p w = Some (lookupLoop os root lrp up p w)"
        using False Return x lookupLoop_Return [OF False Return [unfolded x]] by simp
      then show ?thesis ..
    qed
  qed
qed

lemma walkSymlink_limit:
  assumes "readlinkatFile os (closeFile os p nextDir) (currentDir w) part = (Inr linkDest, pa)"
    and "maxSymlinkLimit os \<le> linksWalked w"
  shows "walkSymlink os root lrp up p w part old nextDir =
           Return (pa, w\<lparr>linksWalked := linksWalked w + 1\<rparr>,
                   Inl (PathError ''partialLookupInRoot'' (lrp @ ''/'' @ up) ELOOP))"
  using assms by (simp add: walkSymlink_def)

lemma lookupLoop_limit:
  assumes "remaining w \<noteq> []" and "nextPart (remaining w) = (part, rest)" and "part \<noteq> []"
    and "path_Join [''/'', currentPath w, part] \<noteq> ''/''"
    and "openatFile os p (currentDir w) part = (Inr nextDir, pa)"
    and "statMode os pa nextDir = (Inr ModeSymlink, pb)"
    and "readlinkatFile os (closeFile os pb nextDir) (currentDir w) part = (Inr linkDest, pc)"
    and "maxSymlinkLimit os \<le> linksWalked w"
  shows "fst (lookupLoop os root lrp up p w) =
           Inl (PathError ''partialLookupInRoot'' (lrp @ ''/'' @ up) ELOOP)"
proof -
  have "walkStep os root lrp up p w =
      Return (pc, w\<lparr>remaining := rest, linksWalked := linksWalked w + 1\<rparr>,
              Inl (PathError ''partialLookupInRoot'' (lrp @ ''/'' @ up) ELOOP))"
    using assms walkSymlink_limit [of os pb nextDir "w\<lparr>remaining := rest\<rparr>" part linkDest pc]
    by (simp add: walkStep_part walkPart_def)
  from lookupLoop_Return [OF assms(1) this] show ?thesis
    by (simp add: deferred_def)
qed

lemma symlink_self_example:
  "partialLookupInRoot
     (treeOs [([], Directory), ([''r''], Directory), ([''r'', ''a''], Symlink ''a'')] 3)
     (procWith 0) (File 0 [''r'']) ''a''
   = (Inl (PathError ''partialLookupInRoot'' ''/r/a'' ELOOP),
      \<lparr>kernel = (), nextFile = 9, openFiles = {0}\<rparr>)"
  apply (simp add: walk_defs tree_defs lookupLoop.simps dropEmptyTail.simps insert_Diff_if)
  apply (simp add: eval_nat_numeral)?
  done

lemma symlink_mutual_example:
  "partialLookupInRoot
     (treeOs [([], Directory), ([''r''], Directory), ([''r'', ''a''], Symlink ''b''),
              ([''r'', ''b''], Symlink ''a'')] 3)
     (procWith 0) (File 0 [''r'']) ''a''
   = (Inl (PathError ''partialLookupInRoot'' ''/r/a'' ELOOP),
      \<lparr>kernel = (), nextFile = 9, openFiles = {0}\<rparr>)"
  apply (simp add: walk_defs tree_defs lookupLoop.simps dropEmptyTail.simps insert_Diff_if)
  apply (simp add: eval_nat_numeral)?
  done

lemma partialLookupInRoot_loop:
  assumes "\<not> hasOpenat2 os" and "procSelfFdReadlink os p root = (Inr lrp, pa)"
    and "dupFile os pa root = (Inr rootClone, pb)"
  shows "partialLookupInRoot os p root path =
           lookupLoop os root lrp path pb
             \<lparr>currentDir = rootClone, stack = [], linksWalked = 0, currentPath = [],
              remaining = path\<rparr>"
  using assms by (simp add: partialLookupInRoot_def filepath_ToSlash_def)

text \<open>
  C6.  Symlink-limit enforcement.  The counter \<open>linksWalked\<close> starts at zero in every
  call and is part of the state of that call only.  Every symlink that is followed
  adds one to it and leaves it within \<open>maxSymlinkLimit\<close>; a symlink read when the
  counter has reached the limit makes the call fail with the \<open>ELOOP\<close> path error, whose
  path is the root's path, a slash and the request path as it was given.  The loop
  always reaches a \<open>return\<close>: some number of iterations is enough, whatever the file
  system answers.  A symlink to itself and two symlinks to each other, with the limit
  3, fail with that error.
\<close>

theorem symlink_limit_enforcement:
  "(\<not> hasOpenat2 os \<and> procSelfFdReadlink os p root = (Inr lrp, pa)
      \<and> dupFile os pa root = (Inr rootClone, pb)
    \<longrightarrow> partialLookupInRoot os p root up =
          lookupLoop os root lrp up pb
            \<lparr>currentDir = rootClone, stack = [], linksWalked = 0, currentPath = [],
             remaining = up\<rparr>)
   \<and> (walkSymlink os root lrp up p w part old nextDir = Continue (p', w')
    \<longrightarrow> linksWalked w' = linksWalked w + 1 \<and> linksWalked w' \<le> maxSymlinkLimit os)
   \<and> (remaining w \<noteq> [] \<and> nextPart (remaining w) = (part, rest) \<and> part \<noteq> []
      \<and> path_Join [''/'', currentPath w, part] \<noteq> ''/''
      \<and> openatFile os p (currentDir w) part = (Inr nextDir, pa)
      \<and> statMode os pa nextDir = (Inr ModeSymlink, pb)
      \<and> readlinkatFile os (closeFile os pb nextDir) (currentDir w) part = (Inr linkDest, pc)
      \<and> maxSymlinkLimit os \<le> linksWalked w
    \<longrightarrow> fst (lookupLoop os root lrp up p w) =
          Inl (PathError ''partialLookupInRoot'' (lrp @ ''/'' @ up) ELOOP))
   \<and> (\<exists>n. lookupFuel n os root lrp up p w = Some (lookupLoop os root lrp up p w))
   \<and> partialLookupInRoot
        (treeOs [([], Directory), ([''r''], Directory), ([''r'', ''a''], Symlink ''a'')] 3)
        (procWith 0) (File 0 [''r'']) ''a''
      = (Inl (PathError ''partialLookupInRoot'' ''/r/a'' ELOOP),
         \<lparr>kernel = (), nextFile = 9, openFiles = {0}\<rparr>)
   \<and> partialLookupInRoot
        (treeOs [([], Directory), ([''r''], Directory), ([''r'', ''a''], Symlink ''b''),
                 ([''r'', ''b''], Symlink ''a'')] 3)
        (procWith 0) (File 0 [''r'']) ''a''
      = (Inl (PathError ''partialLookupInRoot'' ''/r/a'' ELOOP),
         \<lparr>kernel = (), nextFile = 9, openFiles = {0}\<rparr>)"
  using partialLookupInRoot_loop [of os p root lrp pa rootClone pb up]
    walkSymlink_Continue [of os root lrp up p w part old nextDir p' w']
    lookupLoop_limit [of w part rest os p nextDir pa pb linkDest pc root lrp up]
    lookupFuel_enough [of os root lrp up p w]
    symlink_self_example symlink_mutual_example
  by auto

theorem symlink_limit_enforcement_witness:
  "fst (lookupLoop
     (treeOs [([], Directory), ([''r''], Directory), ([''r'', ''a''], Symlink ''a'')] 3)
     (File 0 [''r'']) ''/r'' ''a''
     \<lparr>kernel = (), nextFile = 8, openFiles = {0, 1, 3, 5, 7}\<rparr>
     \<lparr>currentDir = File 1 [''r''],
      stack = [\<lparr>dir = File 3 [''r''], remainingPath = ''a'', linkUnwalked = []\<rparr>,
               \<lparr>dir = File 5 [''r''], remainingPath = ''a/'', linkUnwalked = []\<rparr>,
               \<lparr>dir = File 7 [''r''], remainingPath = ''a/'', linkUnwalked = [''a'']\<rparr>],
      linksWalked = 3, currentPath = [], remaining = ''a/''\<rparr>)
   = Inl (PathError ''partialLookupInRoot'' ''/r/a'' ELOOP)"
  using symlink_limit_enforcement
    [where os = "treeOs [([], Directory), ([''r''], Directory),
                         ([''r'', ''a''], Symlink ''a'')] 3"
       and root = "File 0 [''r'']" and lrp = "''/r''" and up = "''a''"
       and p = "\<lparr>kernel = (), nextFile = 8, openFiles = {0, 1, 3, 5, 7}\<rparr>"
       and w = "\<lparr>currentDir = File 1 [''r''],
                 stack = [\<lparr>dir = File 3 [''r''], remainingPath = ''a'', linkUnwalked = []\<rparr>,
                          \<lparr>dir = File 5 [''r''], remainingPath = ''a/'', linkUnwalked = []\<rparr>,
                          \<lparr>dir = File 7 [''r''], remainingPath = ''a/'',
                            linkUnwalked = [''a'']\<rparr>],
                 linksWalked = 3, currentPath = [], remaining = ''a/''\<rparr>"
       and part = "''a''" and rest = "[]" and nextDir = "File 8 [''r'', ''a'']"
       and pa = "\<lparr>kernel = (), nextFile = 9, openFiles = {8, 0, 1, 3, 5, 7}\<rparr>"
       and pb = "\<lparr>kernel = (), nextFile = 9, openFiles = {8, 0, 1, 3, 5, 7}\<rparr>"
       and pc = "\<lparr>kernel = (), nextFile = 9, openFiles = {0, 1, 3, 5, 7}\<rparr>"
       and linkDest = "''a''"]
  by (simp add: walk_defs tree_defs insert_Diff_if)

section \<open>The race check\<close>

lemma closeFile_check_update:
  "closeFile (os\<lparr>sys_checkProcSelfFdPath := chk\<rparr>) = closeFile os"
  by (intro ext) (simp add: closeFile_def)

lemma dupFile_check_update:
  "dupFile (os\<lparr>sys_checkProcSelfFdPath := chk\<rparr>) = dupFile os"
  by (intro ext) (simp add: dupFile_def)

lemma openatFile_check_update:
  "openatFile (os\<lparr>sys_checkProcSelfFdPath := chk\<rparr>) = openatFile os"
  by (intro ext) (simp add: openatFile_def)

lemma statMode_check_update:
  "statMode (os\<lparr>sys_checkProcSelfFdPath := chk\<rparr>) = statMode os"
  by (intro ext) (simp add: statMode_def)

lemma readlinkatFile_check_update:
  "readlinkatFile (os\<lparr>sys_checkProcSelfFdPath := chk\<rparr>) = readlinkatFile os"
  by (intro ext) (simp add: readlinkatFile_def)

lemma entry_Close_check_update:
  "entry_Close (os\<lparr>sys_checkProcSelfFdPath := chk\<rparr>) = entry_Close os"
  by (intro ext) (simp add: entry_Close_def closeFile_check_update)

lemma PopPart_check_update:
  "PopPart (os\<lparr>sys_checkProcSelfFdPath := chk\<rparr>) = PopPart os"
  by (intro ext)
    (simp add: PopPart_def dropEmptyTail_eq entry_Close_check_update
      split: prod.splits option.splits)

lemma push_check_update:
  "push (os\<lparr>sys_checkProcSelfFdPath := chk\<rparr>) = push os"
  by (intro ext) (simp add: push_def dupFile_check_update Let_def)

lemma SwapLink_check_update:
  "SwapLink (os\<lparr>sys_checkProcSelfFdPath := chk\<rparr>) = SwapLink os"
  by (intro ext)
    (simp add: SwapLink_def push_check_update
      cong: prod.case_cong option.case_cong if_cong)

lemmas check_update =
  closeFile_check_update dupFile_check_update openatFile_check_update statMode_check_update
  readlinkatFile_check_update PopPart_check_update SwapLink_check_update

lemma walkPart_no_check:
  assumes "part \<noteq> ''..'' \<or> path_Join [''/'', currentPath w, part] = ''/''"
  shows "walkPart (os\<lparr>sys_checkProcSelfFdPath := chk\<rparr>) root lrp up p w part old
       = walkPart os root lrp up p w part old"
proof (cases "path_Join [''/'', currentPath w, part] = ''/''")
  case True
  then show ?thesis
    by (simp add: walkPart_def walkIntoRoot_def check_update
        cong: prod.case_cong option.case_cong sum.case_cong)
next
  case False
  with assms have "part \<noteq> ''..''" by simp
  then show ?thesis
    by (simp add: walkPart_def walkIntoRoot_def walkDirectory_def walkSymlink_def walkOther_def
        walkNotExist_def check_update Let_def
        cong: prod.case_cong option.case_cong sum.case_cong fileMode.case_cong if_cong)
qed

lemma lookupLoop_root_moved:
  assumes "remaining w \<noteq> []" and "nextPart (remaining w) = (''..'', rest)"
    and "path_Join [''/'', currentPath w, ''..''] \<noteq> ''/''"
    and "openatFile os p (currentDir w) ''..'' = (Inr nextDir, pa)"
    and "statMode os pa nextDir = (Inr ModeDir, pb)"
    and "PopPart os (closeFile os pb (currentDir w)) (stack w) ''..'' = (None, pc, s)"
    and "checkProcSelfFdPath os pc lrp root = (Some err, pd)"
  shows "fst (lookupLoop os root lrp up p w) =
           Inl (Errorf ''root path moved during lookup: %w'' [] [err])"
proof -
  have "walkStep os root lrp up p w =
      Return (pd, w\<lparr>remaining := rest, currentDir := nextDir,
                     currentPath := path_Join [''/'', currentPath w, ''..''], stack := s\<rparr>,
              Inl (Errorf ''root path moved during lookup: %w'' [] [err]))"
    using assms by (simp add: walkStep_part walkPart_def walkDirectory_def)
  from lookupLoop_Return [OF assms(1) this] show ?thesis
    by (simp add: deferred_def)
qed

lemma lookupLoop_unexpected_result:
  assumes "remaining w \<noteq> []" and "nextPart (remaining w) = (''..'', rest)"
    and "path_Join [''/'', currentPath w, ''..''] \<noteq> ''/''"
    and "openatFile os p (currentDir w) ''..'' = (Inr nextDir, pa)"
    and "statMode os pa nextDir = (Inr ModeDir, pb)"
    and "PopPart os (closeFile os pb (currentDir w)) (stack w) ''..'' = (None, pc, s)"
    and "checkProcSelfFdPath os pc lrp root = (None, pd)"
    and "checkProcSelfFdPath os pd (lrp @ path_Join [''/'', currentPath w, ''..'']) nextDir
           = (Some err, pe)"
  shows "fst (lookupLoop os root lrp up p w) =
           Inl (Errorf ''walking into %q had unexpected result: %w'' [''..''] [err])"
proof -
  have "walkStep os root lrp up p w =
      Return (pe, w\<lparr>remaining := rest, currentDir := nextDir,
                     currentPath := path_Join [''/'', currentPath w, ''..''], stack := s\<rparr>,
              Inl (Errorf ''walking into %q had unexpected result: %w'' [''..''] [err]))"
    using assms by (simp add: walkStep_part walkPart_def walkDirectory_def)
  from lookupLoop_Return [OF assms(1) this] show ?thesis
    by (simp add: deferred_def)
qed

lemma walkStep_checks_pass:
  assumes "nextPart (remaining w) = (''..'', rest)"
    and "path_Join [''/'', currentPath w, ''..''] \<noteq> ''/''"
    and "openatFile os p (currentDir w) ''..'' = (Inr nextDir, pa)"
    and "statMode os pa nextDir = (Inr ModeDir, pb)"
    and "PopPart os (closeFile os pb (currentDir w)) (stack w) ''..'' = (None, pc, s)"
    and "checkProcSelfFdPath os pc lrp root = (None, pd)"
    and "checkProcSelfFdPath os pd (lrp @ path_Join [''/'', currentPath w, ''..'']) nextDir
           = (None, pe)"
  shows "walkStep os root lrp up p w =
           Continue (pe, w\<lparr>remaining := rest, currentDir := nextDir,
                           currentPath := path_Join [''/'', currentPath w, ''..''],
                           stack := s\<rparr>)"
  using assms by (simp add: walkStep_part walkPart_def walkDirectory_def)

lemma dotdot_to_root_unchecked:
  "partialLookupInRoot
     ((treeOs [([], Directory), ([''r''], Directory), ([''r'', ''a''], Directory),
               ([''r'', ''a'', ''b''], Directory)] 255)
        \<lparr>sys_checkProcSelfFdPath := alwaysMismatch\<rparr>)
     (procWith 0) (File 0 [''r'']) ''a/..''
   = (Inr (File 3 [''r''], []), \<lparr>kernel = (), nextFile = 4, openFiles = {3, 0}\<rparr>)"
  apply (simp add: walk_defs tree_defs lookupLoop.simps dropEmptyTail.simps insert_Diff_if
      alwaysMismatch_def)
  apply (simp add: eval_nat_numeral)?
  done

lemma dotdot_below_root_checked:
  "partialLookupInRoot
     ((treeOs [([], Directory), ([''r''], Directory), ([''r'', ''a''], Directory),
               ([''r'', ''a'', ''b''], Directory)] 255)
        \<lparr>sys_checkProcSelfFdPath := alwaysMismatch\<rparr>)
     (procWith 0) (File 0 [''r'']) ''a/b/..''
   = (Inl (Errorf ''root path moved during lookup: %w'' []
             [Errorf ''%w: handle path %q does not match expected path %q''
                [''/r'', ''/r''] [errPossibleAttack]]),
      \<lparr>kernel = (), nextFile = 5, openFiles = {0}\<rparr>)"
  apply (simp add: walk_defs tree_defs lookupLoop.simps dropEmptyTail.simps insert_Diff_if
      alwaysMismatch_def)
  apply (simp add: eval_nat_numeral)?
  done

text \<open>
  C4, as stated, fails: a \<open>..\<close> that leads back to the root is a directory transition
  (the current directory is replaced by a duplicate of the root) after which no check
  is made.  With a check that reports a mismatch whatever it is asked, the walk along
  \<open>a/..\<close> succeeds, while the walk along \<open>a/b/..\<close>, in the same world, is aborted.
\<close>

theorem race_check_counterexample:
  "partialLookupInRoot
     ((treeOs [([], Directory), ([''r''], Directory), ([''r'', ''a''], Directory),
               ([''r'', ''a'', ''b''], Directory)] 255)
        \<lparr>sys_checkProcSelfFdPath := alwaysMismatch\<rparr>)
     (procWith 0) (File 0 [''r'']) ''a/..''
   = (Inr (File 3 [''r''], []), \<lparr>kernel = (), nextFile = 4, openFiles = {3, 0}\<rparr>)
   \<and> partialLookupInRoot
     ((treeOs [([], Directory), ([''r''], Directory), ([''r'', ''a''], Directory),
               ([''r'', ''a'', ''b''], Directory)] 255)
        \<lparr>sys_checkProcSelfFdPath := alwaysMismatch\<rparr>)
     (procWith 0) (File 0 [''r'']) ''a/b/..''
   = (Inl (Errorf ''root path moved during lookup: %w'' []
             [Errorf ''%w: handle path %q does not match expected path %q''
                [''/r'', ''/r''] [errPossibleAttack]]),
      \<lparr>kernel = (), nextFile = 5, openFiles = {0}\<rparr>)"
  using dotdot_to_root_unchecked dotdot_below_root_checked by (rule conjI)

text \<open>
  C4, amended.  The race check is made after every \<open>..\<close> component that is opened
  under the current directory, found to be a directory and popped from the stack
  without error: first that the root handle is still at the path read at the start,
  then that the new current directory is at that path followed by the new logical
  path.  A mismatch reported by either aborts the whole walk with the report wrapped
  as \<open>root path moved during lookup\<close>, respectively \<open>walking into ".." had unexpected
  result\<close>; when both pass the walk goes on.  No check is made for a component other
  than \<open>..\<close>, and none for a \<open>..\<close> whose logical path is the root itself (the walk then
  duplicates the root handle and opens nothing): there the iteration is the same
  whatever the check would answer.
\<close>

theorem race_check_after_dotdot:
  "((part \<noteq> ''..'' \<or> path_Join [''/'', currentPath w, part] = ''/'')
    \<longrightarrow> walkPart (os\<lparr>sys_checkProcSelfFdPath := chk\<rparr>) root lrp up p w part old
          = walkPart os root lrp up p w part old)
   \<and> (remaining w \<noteq> [] \<and> nextPart (remaining w) = (''..'', rest)
      \<and> path_Join [''/'', currentPath w, ''..''] \<noteq> ''/''
      \<and> openatFile os p (currentDir w) ''..'' = (Inr nextDir, pa)
      \<and> statMode os pa nextDir = (Inr ModeDir, pb)
      \<and> PopPart os (closeFile os pb (currentDir w)) (stack w) ''..'' = (None, pc, s)
      \<and> checkProcSelfFdPath os pc lrp root = (Some err, pd)
    \<longrightarrow> fst (lookupLoop os root lrp up p w) =
          Inl (Errorf ''root path moved during lookup: %w'' [] [err]))
   \<and> (remaining w \<noteq> [] \<and> nextPart (remaining w) = (''..'', rest)
      \<and> path_Join [''/'', currentPath w, ''..''] \<noteq> ''/''
      \<and> openatFile os p (currentDir w) ''..'' = (Inr nextDir, pa)
      \<and> statMode os pa nextDir = (Inr ModeDir, pb)
      \<and> PopPart os (closeFile os pb (currentDir w)) (stack w) ''..'' = (None, pc, s)
      \<and> checkProcSelfFdPath os pc lrp root = (None, pd)
      \<and> checkProcSelfFdPath os pd (lrp @ path_Join [''/'', currentPath w, ''..'']) nextDir
            = (Some err, pe)
    \<longrightarrow> fst (lookupLoop os root lrp up p w) =
          Inl (Errorf ''walking into %q had unexpected result: %w'' [''..''] [err]))
   \<and> (nextPart (remaining w) = (''..'', rest)
      \<and> path_Join [''/'', currentPath w, ''..''] \<noteq> ''/''
      \<and> openatFile os p (currentDir w) ''..'' = (Inr nextDir, pa)
      \<and> statMode os pa nextDir = (Inr ModeDir, pb)
      \<and> PopPart os (closeFile os pb (currentDir w)) (stack w) ''..'' = (None, pc, s)
      \<and> checkProcSelfFdPath os pc lrp root = (None, pd)
      \<and> checkProcSelfFdPath os pd (lrp @ path_Join [''/'', currentPath w, ''..'']) nextDir
            = (None, pe)
    \<longrightarrow> walkStep os root lrp up p w =
          Continue (pe, w\<lparr>remaining := rest, currentDir := nextDir,
                          currentPath := path_Join [''/'', currentPath w, ''..''],
                          stack := s\<rparr>))"
proof (intro conjI impI)
  assume "part \<noteq> ''..'' \<or> path_Join [''/'', currentPath w, part] = ''/''"
  then show "walkPart (os\<lparr>sys_checkProcSelfFdPath := chk\<rparr>) root lrp up p w part old
      = walkPart os root lrp up p w part old"
    by (rule walkPart_no_check)
next
  assume "remaining w \<noteq> [] \<and> nextPart (remaining w) = (''..'', rest)
      \<and> path_Join [''/'', currentPath w, ''..''] \<noteq> ''/''
      \<and> openatFile os p (currentDir w) ''..'' = (Inr nextDir, pa)
      \<and> statMode os pa nextDir = (Inr ModeDir, pb)
      \<and> PopPart os (closeFile os pb (currentDir w)) (stack w) ''..'' = (None, pc, s)
      \<and> checkProcSelfFdPath os pc lrp root = (Some err, pd)"
  then show "fst (lookupLoop os root lrp up p w) =
      Inl (Errorf ''root path moved during lookup: %w'' [] [err])"
    by (elim conjE) (rule lookupLoop_root_moved; assumption)
next
  assume "remaining w \<noteq> [] \<and> nextPart (remaining w) = (''..'', rest)
      \<and> path_Join [''/'', currentPath w, ''..''] \<noteq> ''/''
      \<and> openatFile os p (currentDir w) ''..'' = (Inr nextDir, pa)
      \<and> statMode os pa nextDir = (Inr ModeDir, pb)
      \<and> PopPart os (closeFile os pb (currentDir w)) (stack w) ''..'' = (None, pc, s)
      \<and> checkProcSelfFdPath os pc lrp root = (None, pd)
      \<and> checkProcSelfFdPath os pd (lrp @ path_Join [''/'', currentPath w, ''..'']) nextDir
            = (Some err, pe)"
  then show "fst (lookupLoop os root lrp up p w) =
      Inl (Errorf ''walking into %q had unexpected result: %w'' [''..''] [err])"
    by (elim conjE) (rule lookupLoop_unexpected_result; assumption)
next
  assume "nextPart (remaining w) = (''..'', rest)
      \<and> path_Join [''/'', currentPath w, ''..''] \<noteq> ''/''
      \<and> openatFile os p (currentDir w) ''..'' = (Inr nextDir, pa)
      \<and> statMode os pa nextDir = (Inr ModeDir, pb)
      \<and> PopPart os (closeFile os pb (currentDir w)) (stack w) ''..'' = (None, pc, s)
      \<and> checkProcSelfFdPath os pc lrp root = (None, pd)
      \<and> checkProcSelfFdPath os pd (lrp @ path_Join [''/'', currentPath w, ''..'']) nextDir
            = (None, pe)"
  then show "walkStep os root lrp up p w =
      Continue (pe, w\<lparr>remaining := rest, currentDir := nextDir,
                      currentPath := path_Join [''/'', currentPath w, ''..''],
                      stack := s\<rparr>)"
    by (elim conjE) (rule walkStep_checks_pass; assumption)
qed

theorem race_check_after_dotdot_witness:
  "fst (lookupLoop
     ((treeOs [([], Directory), ([''r''], Directory), ([''r'', ''a''], Directory),
               ([''r'', ''a'', ''b''], Directory)] 255)
        \<lparr>sys_checkProcSelfFdPath := alwaysMismatch\<rparr>)
     (File 0 [''r'']) ''/r'' ''a/b/..''
     \<lparr>kernel = (), nextFile = 4, openFiles = {3, 0}\<rparr>
     \<lparr>currentDir = File 3 [''r'', ''a'', ''b''], stack = [], linksWalked = 0,
      currentPath = ''/a/b'', remaining = ''..''\<rparr>)
   = Inl (Errorf ''root path moved during lookup: %w'' []
            [Errorf ''%w: handle path %q does not match expected path %q''
               [''/r'', ''/r''] [errPossibleAttack]])
   \<and> fst (lookupLoop
     (treeOs [([], Directory), ([''a''], Directory), ([''a'', ''b''], Directory)] 255)
     (File 0 []) ''/'' ''a/b/..''
     \<lparr>kernel = (), nextFile = 4, openFiles = {3, 0}\<rparr>
     \<lparr>currentDir = File 3 [''a'', ''b''], stack = [], linksWalked = 0,
      currentPath = ''/a/b'', remaining = ''..''\<rparr>)
   = Inl (Errorf ''walking into %q had unexpected result: %w'' [''..'']
            [Errorf ''%w: handle path %q does not match expected path %q''
               [''/a'', ''//a''] [errPossibleAttack]])"
  using race_check_after_dotdot
    [where os = "(treeOs [([], Directory), ([''r''], Directory), ([''r'', ''a''], Directory),
                          ([''r'', ''a'', ''b''], Directory)] 255)
                   \<lparr>sys_checkProcSelfFdPath := alwaysMismatch\<rparr>"
       and root = "File 0 [''r'']" and lrp = "''/r''" and up = "''a/b/..''"
       and p = "\<lparr>kernel = (), nextFile = 4, openFiles = {3, 0}\<rparr>"
       and w = "\<lparr>currentDir = File 3 [''r'', ''a'', ''b''], stack = [], linksWalked = 0,
                 currentPath = ''/a/b'', remaining = ''..''\<rparr>"
       and rest = "[]" and nextDir = "File 4 [''r'', ''a'']"
       and pa = "\<lparr>kernel = (), nextFile = 5, openFiles = {4, 3, 0}\<rparr>"
       and pb = "\<lparr>kernel = (), nextFile = 5, openFiles = {4, 3, 0}\<rparr>"
       and pc = "\<lparr>kernel = (), nextFile = 5, openFiles = {4, 0}\<rparr>"
       and s = "[]"
       and err = "Errorf ''%w: handle path %q does not match expected path %q''
                    [''/r'', ''/r''] [errPossibleAttack]"
       and pd = "\<lparr>kernel = (), nextFile = 5, openFiles = {4, 0}\<rparr>"]
    race_check_after_dotdot
    [where os = "treeOs [([], Directory), ([''a''], Directory), ([''a'', ''b''], Directory)] 255"
       and root = "File 0 []" and lrp = "''/''" and up = "''a/b/..''"
       and p = "\<lparr>kernel = (), nextFile = 4, openFiles = {3, 0}\<rparr>"
       and w = "\<lparr>currentDir = File 3 [''a'', ''b''], stack = [], linksWalked = 0,
                 currentPath = ''/a/b'', remaining = ''..''\<rparr>"
       and rest = "[]" and nextDir = "File 4 [''a'']"
       and pa = "\<lparr>kernel = (), nextFile = 5, openFiles = {4, 3, 0}\<rparr>"
       and pb = "\<lparr>kernel = (), nextFile = 5, openFiles = {4, 3, 0}\<rparr>"
       and pc = "\<lparr>kernel = (), nextFile = 5, openFiles = {4, 0}\<rparr>"
       and s = "[]"
       and err = "Errorf ''%w: handle path %q does not match expected path %q''
                    [''/a'', ''//a''] [errPossibleAttack]"
       and pd = "\<lparr>kernel = (), nextFile = 5, openFiles = {4, 0}\<rparr>"
       and pe = "\<lparr>kernel = (), nextFile = 5, openFiles = {4, 0}\<rparr>"]
  by (simp add: walk_defs tree_defs insert_Diff_if alwaysMismatch_def dropEmptyTail.simps)

section \<open>Open files after the call\<close>

text \<open>
  C7 does not hold of the code.  In the file system with the symlinks \<open>/r/a -> b\<close> and
  \<open>/r/b -> /\<close> and the regular file \<open>/r/f\<close>, the walk from \<open>/r\<close> along \<open>a/f\<close> reaches \<open>f\<close>
  with an emptied entry still on the stack (\<open>SwapLink\<close> emptied the entry of \<open>a\<close> and
  pushed nothing for the target \<open>/\<close>).  The branch for a file that is neither a
  directory nor a symlink closes the current directory, \<open>PopPart\<close> fails, and the
  \<open>return\<close> leaves the file just opened for \<open>f\<close> (identity 6) open: the call returns an
  error and one more file is open than before it (only the root, identity 0, was).
\<close>

theorem leak_on_broken_stack:
  "partialLookupInRoot
     (treeOs [([], Directory), ([''r''], Directory), ([''r'', ''a''], Symlink ''b''),
              ([''r'', ''b''], Symlink ''/''), ([''r'', ''f''], Regular)] 255)
     (procWith 0) (File 0 [''r'']) ''a/f''
   = (Inl (Errorf ''walking into non-directory %q failed: %w'' [''f'']
             [Errorf ''%w: trying to pop component %q of empty stack entry %s''
                [''f''] [errBrokenSymlinkStack]]),
      \<lparr>kernel = (), nextFile = 7, openFiles = {6, 0}\<rparr>)"
  apply (simp add: walk_defs tree_defs lookupLoop.simps dropEmptyTail.simps insert_Diff_if)
  apply (simp add: eval_nat_numeral)?
  done

section \<open>The files of the caller\<close>

lemma sameBelow_kernel [simp]: "sameBelow n P (p\<lparr>kernel := k\<rparr>) = sameBelow n P p"
  by (simp add: sameBelow_def)

lemma sameBelow_closeFile:
  "sameBelow n P p \<Longrightarrow> n \<le> ident f \<Longrightarrow> sameBelow n P (closeFile os p f)"
  by (auto simp: sameBelow_def closeFile_def)

lemma sameBelow_newFile:
  "sameBelow n P p \<Longrightarrow> newFile p h = (g, p') \<Longrightarrow> sameBelow n P p' \<and> n \<le> ident g"
  by (auto simp: sameBelow_def newFile_def)

lemma sameBelow_dupFile:
  "sameBelow n P p \<Longrightarrow> dupFile os p f = (r, p')
    \<Longrightarrow> sameBelow n P p' \<and> (\<forall>g. r = Inr g \<longrightarrow> n \<le> ident g)"
  by (auto simp: dupFile_def newFile_def sameBelow_def split: prod.splits sum.splits)

lemma sameBelow_openatFile:
  "sameBelow n P p \<Longrightarrow> openatFile os p d name = (r, p')
    \<Longrightarrow> sameBelow n P p' \<and> (\<forall>g. r = Inr g \<longrightarrow> n \<le> ident g)"
  by (auto simp: openatFile_def newFile_def sameBelow_def split: prod.splits sum.splits)

lemma sameBelow_statMode:
  "sameBelow n P p \<Longrightarrow> statMode os p f = (r, p') \<Longrightarrow> sameBelow n P p'"
  by (auto simp: statMode_def split: prod.splits)

lemma sameBelow_readlinkatFile:
  "sameBelow n P p \<Longrightarrow> readlinkatFile os p d name = (r, p') \<Longrightarrow> sameBelow n P p'"
  by (auto simp: readlinkatFile_def split: prod.splits)

lemma sameBelow_procSelfFdReadlink:
  "sameBelow n P p \<Longrightarrow> procSelfFdReadlink os p f = (r, p') \<Longrightarrow> sameBelow n P p'"
  by (auto simp: procSelfFdReadlink_def split: prod.splits)

lemma sameBelow_checkProcSelfFdPath:
  "sameBelow n P p \<Longrightarrow> checkProcSelfFdPath os p path f = (r, p') \<Longrightarrow> sameBelow n P p'"
  by (auto simp: checkProcSelfFdPath_def split: prod.splits)

lemma stackOwned_simps [simp]:
  "stackOwned n []"
  "stackOwned n (e # s) = (n \<le> ident (dir e) \<and> stackOwned n s)"
  "stackOwned n (s @ t) = (stackOwned n s \<and> stackOwned n t)"
  by (simp_all add: stackOwned_def)

lemma sameBelow_stack_Close:
  "sameBelow n P p \<Longrightarrow> stackOwned n s \<Longrightarrow> sameBelow n P (stack_Close os p s)"
  by (induction s arbitrary: p) (simp_all add: entry_Close_def sameBelow_closeFile)

lemma owned_dropEmptyTail:
  "sameBelow n P p \<Longrightarrow> stackOwned n s \<Longrightarrow> dropEmptyTail os p s = (p', s')
    \<Longrightarrow> sameBelow n P p' \<and> stackOwned n s'"
proof (induction s arbitrary: p rule: rev_induct)
  case Nil
  then show ?case by (simp add: dropEmptyTail_Nil)
next
  case (snoc e s)
  show ?case
  proof (cases "linkUnwalked e = []")
    case True
    from snoc.prems have "sameBelow n P (closeFile os p (dir e))" "stackOwned n s"
      by (simp_all add: sameBelow_closeFile)
    moreover from snoc.prems True
    have "dropEmptyTail os (closeFile os p (dir e)) s = (p', s')"
      by (simp add: dropEmptyTail_snoc entry_Close_def)
    ultimately show ?thesis by (rule snoc.IH)
  next
    case False
    with snoc.prems show ?thesis by (auto simp: dropEmptyTail_snoc)
  qed
qed

lemma owned_popPart:
  "stackOwned n s \<Longrightarrow> popPart s part = (r, s') \<Longrightarrow> stackOwned n s'"
  by (cases s rule: rev_cases) (auto simp: popPart_Nil popPart_snoc split: if_splits)

lemma owned_PopPart:
  assumes "sameBelow n P p" and "stackOwned n s" and "PopPart os p s part = (r, p', s')"
  shows "sameBelow n P p' \<and> stackOwned n s'"
proof -
  obtain e s1 where pp: "popPart s part = (e, s1)" by (cases "popPart s part")
  have o1: "stackOwned n s1" using owned_popPart [OF assms(2) pp] .
  show ?thesis
  proof (cases e)
    case None
    with assms(3) pp have "dropEmptyTail os p s1 = (p', s')"
      by (simp add: PopPart_def split: prod.splits)
    from owned_dropEmptyTail [OF assms(1) o1 this] show ?thesis .
  next
    case (Some err)
    with assms pp o1 show ?thesis
      by (auto simp: PopPart_def split: if_splits)
  qed
qed

lemma owned_push:
  "sameBelow n P p \<Longrightarrow> stackOwned n s \<Longrightarrow> push os p s d rp linkTarget = (r, p', s')
    \<Longrightarrow> sameBelow n P p' \<and> stackOwned n s'"
  using sameBelow_dupFile [of n P p os d]
  by (auto simp: push_def Let_def split: prod.splits sum.splits if_splits)

lemma owned_SwapLink:
  assumes "sameBelow n P p" and "stackOwned n s"
    and "SwapLink os p s linkPart d rp linkTarget = (r, p', s')"
  shows "sameBelow n P p' \<and> stackOwned n s'"
proof -
  obtain e s1 where pp: "popPart s linkPart = (e, s1)" by (cases "popPart s linkPart")
  have o1: "stackOwned n s1" using owned_popPart [OF assms(2) pp] .
  show ?thesis
    using assms(1,3) pp o1 owned_push [OF assms(1) o1, of os d rp linkTarget r p' s']
    by (auto simp: SwapLink_def split: option.splits if_splits)
qed

lemma owned_PopTopSymlink:
  "stackOwned n s \<Longrightarrow> PopTopSymlink s = Some (d, rp, s') \<Longrightarrow> n \<le> ident d \<and> stackOwned n s'"
  by (cases s) (auto simp: PopTopSymlink_def IsEmpty_def)

lemma iterOwned_simps [simp]:
  "iterOwned n P (Continue (p', w')) = walkOwned n P p' w'"
  "iterOwned n P (Return (p', w', res)) = (walkOwned n P p' w' \<and> answerOwned n res)"
  by (simp_all add: iterOwned_def)

lemma answerOwned_simps [simp]:
  "answerOwned n (Inl err)"
  "answerOwned n (Inr (f, rp)) = (n \<le> ident f)"
  by (simp_all add: answerOwned_def)

lemma owned_walkIntoRoot:
  assumes "walkOwned n P p w"
  shows "iterOwned n P (walkIntoRoot os root p w part nextPath)"
proof -
  obtain r p1 s1 where pp: "PopPart os p (stack w) part = (r, p1, s1)"
    by (cases "PopPart os p (stack w) part") auto
  have o1: "sameBelow n P p1 \<and> stackOwned n s1"
    using owned_PopPart [of n P p "stack w" os part r p1 s1] pp assms
    by (simp add: walkOwned_def)
  obtain d p2 where dp: "dupFile os p1 root = (d, p2)"
    by (cases "dupFile os p1 root")
  have o2: "sameBelow n P p2 \<and> (\<forall>g. d = Inr g \<longrightarrow> n \<le> ident g)"
    using sameBelow_dupFile [of n P p1 os root d p2] dp o1 by simp
  show ?thesis
    using assms pp dp o1 o2
    by (auto simp: walkIntoRoot_def walkOwned_def sameBelow_closeFile
        split: option.splits sum.splits)
qed

lemma owned_walkDirectory:
  assumes "walkOwned n P p w" and "n \<le> ident nextDir"
  shows "iterOwned n P (walkDirectory os root lrp p w part nextPath nextDir)"
proof -
  have c: "sameBelow n P (closeFile os p (currentDir w))"
    using assms by (simp add: walkOwned_def sameBelow_closeFile)
  obtain r p2 s2 where pp: "PopPart os (closeFile os p (currentDir w)) (stack w) part = (r, p2, s2)"
    by (cases "PopPart os (closeFile os p (currentDir w)) (stack w) part") auto
  have o2: "sameBelow n P p2 \<and> stackOwned n s2"
    using owned_PopPart [OF c _ pp] assms by (simp add: walkOwned_def)
  obtain r3 p3 where c3: "checkProcSelfFdPath os p2 lrp root = (r3, p3)"
    by (cases "checkProcSelfFdPath os p2 lrp root")
  have o3: "sameBelow n P p3"
    using sameBelow_checkProcSelfFdPath [of n P p2 os lrp root r3 p3] c3 o2 by simp
  obtain r4 p4 where c4: "checkProcSelfFdPath os p3 (lrp @ nextPath) nextDir = (r4, p4)"
    by (cases "checkProcSelfFdPath os p3 (lrp @ nextPath) nextDir")
  have o4: "sameBelow n P p4"
    using sameBelow_checkProcSelfFdPath [OF o3 c4] .
  show ?thesis
    using assms pp c3 c4 o2 o3 o4
    by (auto simp: walkDirectory_def walkOwned_def Let_def split: option.splits)
qed

lemma owned_walkSymlink:
  assumes "walkOwned n P p w" and "n \<le> ident nextDir"
  shows "iterOwned n P (walkSymlink os root lrp up p w part old nextDir)"
proof -
  have c: "sameBelow n P (closeFile os p nextDir)"
    using assms by (simp add: walkOwned_def sameBelow_closeFile)
  obtain r p2 where rl: "readlinkatFile os (closeFile os p nextDir) (currentDir w) part = (r, p2)"
    by (cases "readlinkatFile os (closeFile os p nextDir) (currentDir w) part")
  have o2: "sameBelow n P p2"
    using sameBelow_readlinkatFile [OF c rl] .
  show ?thesis
  proof (cases r)
    case (Inl err)
    with assms rl o2 show ?thesis
      by (simp add: walkSymlink_def walkOwned_def)
  next
    case (Inr linkDest)
    obtain r3 p3 s3
      where sl: "SwapLink os p2 (stack w) part (currentDir w) old linkDest = (r3, p3, s3)"
      by (cases "SwapLink os p2 (stack w) part (currentDir w) old linkDest") auto
    have o3: "sameBelow n P p3 \<and> stackOwned n s3"
      using owned_SwapLink [OF o2 _ sl] assms by (simp add: walkOwned_def)
    obtain d p4 where dp: "dupFile os p3 root = (d, p4)"
      by (cases "dupFile os p3 root")
    have o4: "sameBelow n P p4 \<and> (\<forall>g. d = Inr g \<longrightarrow> n \<le> ident g)"
      using sameBelow_dupFile [of n P p3 os root d p4] dp o3 by simp
    show ?thesis
      using assms rl Inr sl dp o2 o3 o4
      by (auto simp: walkSymlink_def walkOwned_def Let_def sameBelow_closeFile
          split: option.splits sum.splits)
  qed
qed

lemma owned_walkOther:
  assumes "walkOwned n P p w" and "n \<le> ident nextDir"
  shows "iterOwned n P (walkOther os p w part nextDir)"
proof -
  have c: "sameBelow n P (closeFile os p (currentDir w))"
    using assms by (simp add: walkOwned_def sameBelow_closeFile)
  obtain r p2 s2 where pp: "PopPart os (closeFile os p (currentDir w)) (stack w) part = (r, p2, s2)"
    by (cases "PopPart os (closeFile os p (currentDir w)) (stack w) part") auto
  have o2: "sameBelow n P p2 \<and> stackOwned n s2"
    using owned_PopPart [OF c _ pp] assms by (simp add: walkOwned_def)
  show ?thesis
    using assms pp o2 owned_PopTopSymlink [of n s2]
    by (auto simp: walkOther_def walkOwned_def Let_def sameBelow_closeFile
        split: option.splits)
qed

lemma owned_walkNotExist:
  assumes "walkOwned n P p w"
  shows "iterOwned n P (walkNotExist os p w old)"
  using assms owned_PopTopSymlink [of n "stack w"]
  by (auto simp: walkNotExist_def walkOwned_def sameBelow_closeFile split: option.splits)

lemma owned_walkPart:
  assumes "walkOwned n P p w"
  shows "iterOwned n P (walkPart os root lrp up p w part old)"
proof (cases "path_Join [''/'', currentPath w, part] = ''/''")
  case True
  then show ?thesis
    using owned_walkIntoRoot [OF assms] by (simp add: walkPart_def)
next
  case False
  obtain r p1 where op: "openatFile os p (currentDir w) part = (r, p1)"
    by (cases "openatFile os p (currentDir w) part")
  have o1: "sameBelow n P p1 \<and> (\<forall>g. r = Inr g \<longrightarrow> n \<le> ident g)"
    using sameBelow_openatFile [of n P p os "currentDir w" part r p1] op assms
    by (simp add: walkOwned_def)
  then have w1: "walkOwned n P p1 w"
    using assms by (simp add: walkOwned_def)
  show ?thesis
  proof (cases r)
    case (Inl err)
    with False op w1 owned_walkNotExist [OF w1] show ?thesis
      by (simp add: walkPart_def)
  next
    case (Inr nextDir)
    with o1 have nd: "n \<le> ident nextDir" by simp
    obtain m p2 where sm: "statMode os p1 nextDir = (m, p2)"
      by (cases "statMode os p1 nextDir")
    have "sameBelow n P p2"
      using sameBelow_statMode [of n P p1 os nextDir m p2] sm o1 by simp
    then have w2: "walkOwned n P p2 w"
      using assms by (simp add: walkOwned_def)
    have cl: "walkOwned n P (closeFile os p2 nextDir) w"
      using w2 nd by (simp add: walkOwned_def sameBelow_closeFile)
    show ?thesis
      using False op Inr sm cl
        owned_walkDirectory [OF w2 nd] owned_walkSymlink [OF w2 nd] owned_walkOther [OF w2 nd]
      by (simp add: walkPart_def split: sum.splits fileMode.splits)
  qed
qed

lemma owned_walkStep:
  assumes "walkOwned n P p w"
  shows "iterOwned n P (walkStep os root lrp up p w)"
proof -
  obtain part rest where nP: "nextPart (remaining w) = (part, rest)"
    by (cases "nextPart (remaining w)")
  have w1: "walkOwned n P p (w\<lparr>remaining := rest\<rparr>)"
    using assms by (simp add: walkOwned_def)
  show ?thesis
    using nP w1 owned_walkPart [OF w1, of os root lrp up part "remaining w"]
    by (simp add: walkStep_def Let_def)
qed

lemma owned_deferred:
  assumes "walkOwned n P p w" and "deferred os p w res = (res', p')"
  shows "sameBelow n P p' \<and> res' = res"
  using assms sameBelow_stack_Close [of n P p "stack w" os]
  by (auto simp: deferred_def walkOwned_def Let_def sameBelow_closeFile split: sum.splits)

lemma owned_lookupLoop:
  assumes "walkOwned n P p w"
  shows "sameBelow n P (snd (lookupLoop os root lrp up p w))
       \<and> answerOwned n (fst (lookupLoop os root lrp up p w))"
  apply (rule lookupLoop_induct_rule [where I = "walkOwned n P"
      and Q = "\<lambda>r. sameBelow n P (snd r) \<and> answerOwned n (fst r)"])
  subgoal by (rule assms)
  subgoal for p w p' w'
    using owned_walkStep [of n P p w os root lrp up] by simp
  subgoal for p w p' w' res
    using owned_walkStep [of n P p w os root lrp up] owned_deferred [of n P p' w' os res]
    by (cases "deferred os p' w' res") auto
  subgoal for p w
    using owned_deferred [of n P p w os "Inr (currentDir w, [])"]
    by (cases "deferred os p w (Inr (currentDir w, []))") (auto simp: walkOwned_def)
  done

lemma owned_partialLookupInRoot:
  assumes "\<not> hasOpenat2 os"
  shows "sameBelow (nextFile p) (openFiles p \<inter> {..<nextFile p})
           (snd (partialLookupInRoot os p root path))
       \<and> answerOwned (nextFile p) (fst (partialLookupInRoot os p root path))"
proof -
  let ?n = "nextFile p" and ?P = "openFiles p \<inter> {..<nextFile p}"
  have s0: "sameBelow ?n ?P p" by (simp add: sameBelow_def)
  obtain r p1 where rl: "procSelfFdReadlink os p root = (r, p1)"
    by (cases "procSelfFdReadlink os p root")
  have s1: "sameBelow ?n ?P p1" using sameBelow_procSelfFdReadlink [OF s0 rl] .
  obtain d p2 where dp: "dupFile os p1 root = (d, p2)"
    by (cases "dupFile os p1 root")
  have s2: "sameBelow ?n ?P p2 \<and> (\<forall>g. d = Inr g \<longrightarrow> ?n \<le> ident g)"
    using sameBelow_dupFile [OF s1 dp] .
  show ?thesis
  proof (cases r)
    case (Inl err)
    with assms rl s1 show ?thesis
      by (simp add: partialLookupInRoot_def)
  next
    case lrp: (Inr lrp)
    show ?thesis
    proof (cases d)
      case (Inl err)
      with assms rl lrp dp s2 show ?thesis
        by (simp add: partialLookupInRoot_def)
    next
      case (Inr rootClone)
      with s2 have "walkOwned ?n ?P p2
          \<lparr>currentDir = rootClone, stack = [], linksWalked = 0, currentPath = [],
           remaining = filepath_ToSlash path\<rparr>"
        by (simp add: walkOwned_def)
      from owned_lookupLoop [OF this, of os root lrp "filepath_ToSlash path"]
        assms rl lrp dp Inr show ?thesis
        by (simp add: partialLookupInRoot_def Let_def)
    qed
  qed
qed

lemma root_uses_example:
  "partialLookupInRoot
     (treeOs [([], Directory), ([''r''], Directory), ([''r'', ''a''], Symlink ''/x''),
              ([''r'', ''x''], Directory)] 255)
     (procWith 0) (File 0 [''r'']) ''../a/y''
   = (Inr (File 6 [''r'', ''x''], ''y''), \<lparr>kernel = (), nextFile = 7, openFiles = {6, 0}\<rparr>)"
  apply (simp add: walk_defs tree_defs lookupLoop.simps dropEmptyTail.simps insert_Diff_if)
  apply (simp add: eval_nat_numeral)?
  done

text \<open>
  C9.  The root handed to the walk is an open file of the caller: its identity was
  handed out before the call.  When the native fast path is not available, the call
  neither closes it nor any other file that existed before: after the call such a
  file is open exactly when it was open before.  Every file the walk closes is one it
  created itself.  A handle the call returns is a file created during the call, a
  duplicate or a newly opened component, never the root object itself.
\<close>

theorem root_never_closed:
  assumes "\<not> hasOpenat2 os" and "ident root < nextFile p"
    and "partialLookupInRoot os p root path = (res, p')"
  shows "(ident root \<in> openFiles p') = (ident root \<in> openFiles p)
       \<and> (\<forall>f<nextFile p. (f \<in> openFiles p') = (f \<in> openFiles p))
       \<and> (\<forall>f rp. res = Inr (f, rp) \<longrightarrow> nextFile p \<le> ident f \<and> ident f \<noteq> ident root)"
proof -
  from owned_partialLookupInRoot [OF assms(1), of p root path] assms(3)
  have sb: "sameBelow (nextFile p) (openFiles p \<inter> {..<nextFile p}) p'"
    and ao: "answerOwned (nextFile p) res"
    by simp_all
  from sb have below: "\<forall>f<nextFile p. (f \<in> openFiles p') = (f \<in> openFiles p)"
    by (auto simp: sameBelow_def)
  with assms(2) have "(ident root \<in> openFiles p') = (ident root \<in> openFiles p)"
    by blast
  moreover from ao assms(2)
  have "\<forall>f rp. res = Inr (f, rp) \<longrightarrow> nextFile p \<le> ident f \<and> ident f \<noteq> ident root"
    by auto
  ultimately show ?thesis using below by blast
qed

theorem root_never_closed_witness:
  "partialLookupInRoot
     (treeOs [([], Directory), ([''r''], Directory), ([''r'', ''a''], Symlink ''/x''),
              ([''r'', ''x''], Directory)] 255)
     (procWith 0) (File 0 [''r'']) ''../a/y''
   = (Inr (File 6 [''r'', ''x''], ''y''), \<lparr>kernel = (), nextFile = 7, openFiles = {6, 0}\<rparr>)
   \<and> ident (File 0 [''r'']) < nextFile (procWith 0)
   \<and> ident (File 0 [''r'']) \<in> openFiles (procWith 0)
   \<and> ident (File 0 [''r'']) \<in> openFiles \<lparr>kernel = (), nextFile = 7, openFiles = {6, 0}\<rparr>
   \<and> ident (File 6 [''r'', ''x'']) \<noteq> ident (File 0 [''r''])"
  using root_uses_example
    root_never_closed
      [of "treeOs [([], Directory), ([''r''], Directory), ([''r'', ''a''], Symlink ''/x''),
                   ([''r'', ''x''], Directory)] 255"
          "File 0 [''r'']" "procWith 0" "''../a/y''"
          "Inr (File 6 [''r'', ''x''], ''y'')"
          "\<lparr>kernel = (), nextFile = 7, openFiles = {6, 0}\<rparr>"]
  by (simp add: treeOs_sel procWith_def)

section \<open>Components of a path\<close>

lemma strings_Split_not_Nil [simp]: "strings_Split s c \<noteq> []"
  by (induction s) (auto split: list.splits)

lemma strings_Split_no_sep: "c \<notin> set s \<Longrightarrow> strings_Split s c = [s]"
  by (induction s) auto

lemma strings_Split_sep_append:
  "c \<notin> set a \<Longrightarrow> strings_Split (a @ c # b) c = a # strings_Split b c"
  by (induction a) (auto split: list.splits)

lemma slashParts_Nil [simp]: "slashParts [] = []"
  by (simp add: slashParts_def)

lemma slashParts_slash [simp]: "slashParts (CHR ''/'' # s) = slashParts s"
  by (simp add: slashParts_def)

lemma slashParts_part_slash:
  "CHR ''/'' \<notin> set a
    \<Longrightarrow> slashParts (a @ CHR ''/'' # b) = (if a = [] then slashParts b else a # slashParts b)"
  by (simp add: slashParts_def strings_Split_sep_append)

lemma slashParts_part: "CHR ''/'' \<notin> set a \<Longrightarrow> slashParts a = (if a = [] then [] else [a])"
  by (simp add: slashParts_def strings_Split_no_sep)

lemma slashParts_append_slash:
  "slashParts (a @ CHR ''/'' # b) = slashParts a @ slashParts b"
proof (induction a rule: length_induct)
  case (1 a)
  show ?case
  proof (cases "CHR ''/'' \<in> set a")
    case False
    then show ?thesis by (simp add: slashParts_part_slash slashParts_part)
  next
    case True
    then obtain u v where a: "a = u @ CHR ''/'' # v" and u: "CHR ''/'' \<notin> set u"
      by (meson split_list_first)
    have "length v < length a" by (simp add: a)
    with 1 have IH: "slashParts (v @ CHR ''/'' # b) = slashParts v @ slashParts b" by blast
    show ?thesis
      using u IH by (simp add: a slashParts_part_slash)
  qed
qed

lemma slashParts_empty_slashes: "slashParts l = [] \<Longrightarrow> l = [] \<or> last l = CHR ''/'' \<Longrightarrow> set l \<subseteq> {CHR ''/''}"
proof (induction l rule: length_induct)
  case (1 l)
  show ?case
  proof (cases "l = []")
    case True
    then show ?thesis by simp
  next
    case False
    with 1(3) have "CHR ''/'' \<in> set l" by (metis last_in_set)
    then obtain u v where l: "l = u @ CHR ''/'' # v" and u: "CHR ''/'' \<notin> set u"
      by (meson split_list_first)
    from 1(2) u have "u = []" and v: "slashParts v = []"
      by (auto simp: l slashParts_part_slash split: if_splits)
    have "v = [] \<or> last v = CHR ''/''" using 1(3) False by (auto simp: l split: if_splits)
    moreover have "length v < length l" by (simp add: l)
    ultimately have "set v \<subseteq> {CHR ''/''}" using 1(1) v by blast
    then show ?thesis by (simp add: l \<open>u = []\<close>)
  qed
qed

lemma slashes_replicate: "set l \<subseteq> {c} \<Longrightarrow> l = replicate (length l) c"
  by (induction l) auto

lemma strings_IndexByte_None: "strings_IndexByte s c = None \<Longrightarrow> c \<notin> set s"
  by (induction s) (auto split: if_splits)

lemma strings_IndexByte_Some:
  "strings_IndexByte s c = Some i
    \<Longrightarrow> s = take i s @ c # drop (Suc i) s \<and> c \<notin> set (take i s)"
proof (induction s arbitrary: i)
  case Nil
  then show ?case by simp
next
  case (Cons x s)
  show ?case
  proof (cases "x = c")
    case True
    with Cons.prems show ?thesis by simp
  next
    case False
    with Cons.prems obtain j where j: "strings_IndexByte s c = Some j" and i: "i = Suc j"
      by auto
    from Cons.IH [OF j] False show ?thesis by (simp add: i)
  qed
qed

lemma nextPart_cases:
  assumes "nextPart rp = (part, rest)"
  shows "CHR ''/'' \<notin> set part
       \<and> ((rp = part \<and> rest = []) \<or> rp = part @ CHR ''/'' # rest)"
proof (cases "strings_IndexByte rp CHR ''/''")
  case None
  with assms strings_IndexByte_None [OF None] show ?thesis
    by (simp add: nextPart_def)
next
  case (Some i)
  with assms strings_IndexByte_Some [OF Some] show ?thesis
    by (auto simp: nextPart_def)
qed

lemma nextPart_suffix: "nextPart rp = (part, rest) \<Longrightarrow> suffix rest rp"
  using nextPart_cases [of rp part rest]
  by (auto simp: suffix_def)

lemma first_sep_unique:
  "c \<notin> set a \<Longrightarrow> c \<notin> set a' \<Longrightarrow> a @ c # b = a' @ c # b' \<Longrightarrow> a = a' \<and> b = b'"
proof (induction a arbitrary: a')
  case Nil
  then show ?case by (cases a') auto
next
  case (Cons x a)
  then show ?case by (cases a') auto
qed

lemma nextPart_append:
  assumes "nextPart (l @ s) = (part, rest)" and "l \<noteq> []" and "last l = CHR ''/''"
  shows "\<exists>l'. l = part @ CHR ''/'' # l' \<and> rest = l' @ s \<and> (l' = [] \<or> last l' = CHR ''/'')"
proof -
  from assms(2,3) have "CHR ''/'' \<in> set l" by (metis last_in_set)
  then obtain u v where l: "l = u @ CHR ''/'' # v" and u: "CHR ''/'' \<notin> set u"
    by (meson split_list_first)
  from nextPart_cases [OF assms(1)] have np: "CHR ''/'' \<notin> set part"
    and c: "(l @ s = part \<and> rest = []) \<or> l @ s = part @ CHR ''/'' # rest" by auto
  from c np l have eq: "u @ CHR ''/'' # (v @ s) = part @ CHR ''/'' # rest"
    by auto
  have "u = part \<and> v @ s = rest"
    using first_sep_unique [OF u np eq] .
  moreover have "v = [] \<or> last v = CHR ''/''"
    using assms(3) by (auto simp: l split: if_splits)
  ultimately show ?thesis using l by auto
qed

section \<open>The remaining path\<close>

lemma unwalked_simps [simp]:
  "unwalked [] = []"
  "unwalked (st @ [e]) = linkUnwalked e @ unwalked st"
  by (simp_all add: unwalked_def)

lemma unwalked_Nil_last: "unwalked st = [] \<Longrightarrow> st \<noteq> [] \<Longrightarrow> linkUnwalked (last st) = []"
  by (cases st rule: rev_cases) auto

lemma chainInv_split:
  assumes "chainInv path st rem" and "nextPart rem = (part, rest)"
  shows "if part = [] then chainInv path st rest else partInv path st part rest rem"
proof -
  from assms(1) obtain l s where rem: "rem = l @ s" and s: "suffix s path"
    and l: "l = [] \<or> last l = CHR ''/''" and u: "slashParts l = unwalked st"
    and f: "st = [] \<or> suffix (remainingPath (hd st)) path"
    by (auto simp: chainInv_def)
  show ?thesis
  proof (cases "l = []")
    case True
    have rs: "suffix rest path"
      using nextPart_suffix [OF assms(2)] s rem True by (auto intro: suffix_order.trans)
    have un: "unwalked st = []" using u True by simp
    have c: "chainInv path st rest"
      unfolding chainInv_def using rs un f
      by (intro exI [of _ "[]"] exI [of _ rest]) simp
    have "partInv path st part rest rem"
      using s rs f rem True unwalked_Nil_last [OF un]
      by (auto simp: partInv_def)
    with c show ?thesis by simp
  next
    case False
    with l have "last l = CHR ''/''" by simp
    from nextPart_append [OF assms(2) [unfolded rem] False this]
    obtain l' where l': "l = part @ CHR ''/'' # l'" and rest: "rest = l' @ s"
      and e: "l' = [] \<or> last l' = CHR ''/''" by blast
    have np: "CHR ''/'' \<notin> set part" using nextPart_cases [OF assms(2)] by simp
    have sp: "slashParts l = (if part = [] then slashParts l' else part # slashParts l')"
      by (simp add: l' slashParts_part_slash [OF np])
    show ?thesis
    proof (cases "part = []")
      case True
      have "chainInv path st rest"
        unfolding chainInv_def using rest s e u sp True f
        by (intro exI [of _ l'] exI [of _ s]) simp
      with True show ?thesis by simp
    next
      case nonempty: False
      with sp u have un: "unwalked st = part # slashParts l'" by simp
      then have "st \<noteq> []" by auto
      with f have "suffix (remainingPath (hd st)) path" by simp
      with \<open>st \<noteq> []\<close> rest s e un have "partInv path st part rest rem"
        by (auto simp: partInv_def)
      with nonempty show ?thesis by simp
    qed
  qed
qed

lemma popPart_Some_cases:
  "popPart st part = (Some err, st1)
    \<Longrightarrow> st1 = st \<and> (errors_Is err errEmptyStack \<longleftrightarrow> st = [])"
  by (cases st rule: rev_cases) (auto simp: popPart_Nil popPart_snoc split: if_splits)

lemma popPart_inv:
  assumes "partInv path st part rest old" and "popPart st part = (None, st1)"
  shows "chainInv path st1 rest \<and> st1 \<noteq> []"
proof -
  from assms(2) obtain st0 e where st: "st = st0 @ [e]"
    by (cases st rule: rev_cases) (auto simp: popPart_Nil)
  from assms(2) have ne: "linkUnwalked e \<noteq> []" and hd: "hd (linkUnwalked e) = part"
    and st1: "st1 = st0 @ [e\<lparr>linkUnwalked := tl (linkUnwalked e)\<rparr>]"
    by (auto simp: st popPart_snoc split: if_splits)
  from assms(1) ne have f: "suffix (remainingPath (hd st)) path"
    and "\<exists>l s. rest = l @ s \<and> suffix s path \<and> (l = [] \<or> last l = CHR ''/'')
          \<and> unwalked st = part # slashParts l"
    by (auto simp: partInv_def st)
  then obtain l s where rest: "rest = l @ s" and s: "suffix s path"
    and l: "l = [] \<or> last l = CHR ''/''" and u: "unwalked st = part # slashParts l"
    by blast
  from u ne have "tl (linkUnwalked e) @ unwalked st0 = slashParts l"
    by (cases "linkUnwalked e") (auto simp: st)
  then have u1: "slashParts l = unwalked st1" by (simp add: st1)
  have f1: "suffix (remainingPath (hd st1)) path"
    using f by (cases st0) (auto simp: st st1)
  have "chainInv path st1 rest"
    unfolding chainInv_def using rest s l u1 f1
    by (intro exI [of _ l] exI [of _ s]) simp
  then show ?thesis by (simp add: st1)
qed

lemma chainInv_drop_last:
  assumes "chainInv path (st @ [e]) rem" and "linkUnwalked e = []"
  shows "chainInv path st rem"
proof -
  from assms(1) obtain l s where rem: "rem = l @ s" and s: "suffix s path"
    and l: "l = [] \<or> last l = CHR ''/''" and u: "slashParts l = unwalked (st @ [e])"
    and f: "suffix (remainingPath (hd (st @ [e]))) path"
    by (auto simp: chainInv_def)
  have "st = [] \<or> suffix (remainingPath (hd st)) path"
    using f by (cases st) auto
  then show ?thesis
    unfolding chainInv_def using rem s l u assms(2)
    by (intro exI [of _ l] exI [of _ s]) simp
qed

lemma dropEmptyTail_inv:
  "chainInv path st rem \<Longrightarrow> chainInv path (snd (dropEmptyTail os p st)) rem"
proof (induction st arbitrary: p rule: rev_induct)
  case Nil
  then show ?case by (simp add: dropEmptyTail_Nil)
next
  case (snoc e st)
  show ?case
  proof (cases "linkUnwalked e = []")
    case True
    from chainInv_drop_last [OF snoc.prems True] have "chainInv path st rem" .
    from snoc.IH [OF this] True show ?thesis by (simp add: dropEmptyTail_snoc)
  next
    case False
    with snoc.prems show ?thesis by (simp add: dropEmptyTail_snoc)
  qed
qed

lemma PopPart_inv:
  assumes "partInv path st part rest old" and "PopPart os p st part = (None, p', st')"
  shows "chainInv path st' rest"
proof (cases "st = []")
  case True
  with assms have "st' = []" and "suffix rest path"
    by (auto simp: PopPart_def popPart_Nil partInv_def)
  then show ?thesis
    unfolding chainInv_def by (intro exI [of _ "[]"] exI [of _ rest]) simp
next
  case False
  obtain r st1 where pp: "popPart st part = (r, st1)" by (cases "popPart st part")
  show ?thesis
  proof (cases r)
    case None
    from popPart_inv [OF assms(1) pp [unfolded None]] have "chainInv path st1 rest" by simp
    from dropEmptyTail_inv [OF this, of os p] assms(2) pp None show ?thesis
      by (simp add: PopPart_def split: prod.splits)
  next
    case (Some err)
    with popPart_Some_cases [OF pp [unfolded Some]] False assms(2) pp show ?thesis
      by (simp add: PopPart_def)
  qed
qed

lemma push_inv:
  assumes "chainInv path st rest" and "st = [] \<longrightarrow> suffix old path"
    and "push os p st d old linkDest = (None, p', st')"
  shows "chainInv path st' (linkDest @ CHR ''/'' # rest)"
proof -
  from assms(1) obtain l s where rest: "rest = l @ s" and s: "suffix s path"
    and l: "l = [] \<or> last l = CHR ''/''" and u: "slashParts l = unwalked st"
    and f: "st = [] \<or> suffix (remainingPath (hd st)) path"
    by (auto simp: chainInv_def)
  let ?l = "linkDest @ CHR ''/'' # l"
  have a: "linkDest @ CHR ''/'' # rest = ?l @ s" by (simp add: rest)
  have b: "?l = [] \<or> last ?l = CHR ''/''" using l by auto
  have c: "slashParts ?l = slashParts linkDest @ unwalked st"
    by (simp add: slashParts_append_slash u)
  have alt: "(st' = st \<and> slashParts linkDest = [])
      \<or> (\<exists>dc. st' = st @ [\<lparr>dir = dc, remainingPath = old,
                               linkUnwalked = slashParts linkDest\<rparr>])"
    using assms(3)
    by (auto simp: push_def Let_def slashParts_def [symmetric]
        split: if_splits prod.splits sum.splits)
  have d: "slashParts ?l = unwalked st'
      \<and> (st' = [] \<or> suffix (remainingPath (hd st')) path)"
  proof (cases "st' = st \<and> slashParts linkDest = []")
    case True
    with c f show ?thesis by simp
  next
    case False
    with alt obtain dc
      where st': "st' = st @ [\<lparr>dir = dc, remainingPath = old,
                                linkUnwalked = slashParts linkDest\<rparr>]"
      by blast
    have "unwalked st' = slashParts linkDest @ unwalked st"
      unfolding st' by simp
    moreover have "suffix (remainingPath (hd st')) path"
    proof (cases "st = []")
      case True
      with assms(2) show ?thesis by (simp add: st')
    next
      case False
      with f show ?thesis by (simp add: st')
    qed
    ultimately show ?thesis using c by simp
  qed
  show ?thesis
    unfolding chainInv_def using a b d s
    by (intro exI [of _ ?l] exI [of _ s]) simp
qed

lemma SwapLink_inv:
  assumes "partInv path st part rest old"
    and "SwapLink os p st part d old linkDest = (None, p', st')"
  shows "chainInv path st' (linkDest @ CHR ''/'' # rest)"
proof -
  obtain r st1 where pp: "popPart st part = (r, st1)" by (cases "popPart st part")
  show ?thesis
  proof (cases r)
    case None
    from popPart_inv [OF assms(1) pp [unfolded None]]
    have c: "chainInv path st1 rest" and ne: "st1 \<noteq> []" by simp_all
    from assms(2) pp None have "push os p st1 d old linkDest = (None, p', st')"
      by (simp add: SwapLink_def)
    from push_inv [OF c _ this] ne show ?thesis by simp
  next
    case (Some err)
    from popPart_Some_cases [OF pp [unfolded Some]]
    have st1: "st1 = st" and e: "errors_Is err errEmptyStack \<longleftrightarrow> st = []" by simp_all
    from assms(2) pp Some e st1 have empty: "st = []"
      and pu: "push os p st d old linkDest = (None, p', st')"
      by (auto simp: SwapLink_def split: if_splits)
    from assms(1) empty have "suffix old path" "suffix rest path"
      by (simp_all add: partInv_def)
    then have "chainInv path st rest"
      unfolding chainInv_def using empty by (intro exI [of _ "[]"] exI [of _ rest]) simp
    from push_inv [OF this _ pu] \<open>suffix old path\<close> show ?thesis by simp
  qed
qed

lemma PopTopSymlink_front:
  "PopTopSymlink st = Some (d, rp, st') \<Longrightarrow> st \<noteq> [] \<and> rp = remainingPath (hd st)"
  by (auto simp: PopTopSymlink_def IsEmpty_def Let_def split: if_splits)

lemma PopTopSymlink_None: "PopTopSymlink st = None \<Longrightarrow> st = []"
  by (auto simp: PopTopSymlink_def IsEmpty_def Let_def split: if_splits)

lemma chainInv_front:
  "chainInv path st rem \<Longrightarrow> PopTopSymlink st = Some (d, rp, st') \<Longrightarrow> suffix rp path"
  using PopTopSymlink_front [of st d rp st'] by (auto simp: chainInv_def)

lemma partInv_front:
  "partInv path st part rest old \<Longrightarrow> PopTopSymlink st = Some (d, rp, st') \<Longrightarrow> suffix rp path"
  using PopTopSymlink_front [of st d rp st'] by (auto simp: partInv_def)

lemma chainInv_empty:
  assumes "chainInv path [] rem"
  shows "\<exists>k s. rem = replicate k CHR ''/'' @ s \<and> suffix s path"
proof -
  from assms obtain l s where rem: "rem = l @ s" and s: "suffix s path"
    and l: "l = [] \<or> last l = CHR ''/''" and u: "slashParts l = []"
    by (auto simp: chainInv_def)
  from slashParts_empty_slashes [OF u l] have "l = replicate (length l) CHR ''/''"
    by (rule slashes_replicate)
  with rem s show ?thesis by metis
qed

lemma iterSuffix_simps [simp]:
  "iterSuffix path (Continue (p', w')) = chainInv path (stack w') (remaining w')"
  "iterSuffix path (Return (p', w', res)) = answerSuffix path res"
  by (simp_all add: iterSuffix_def)

lemma answerSuffix_simps [simp]:
  "answerSuffix path (Inl err)"
  "answerSuffix path (Inr (f, rp)) = (\<exists>k s. rp = replicate k CHR ''/'' @ s \<and> suffix s path)"
  by (simp_all add: answerSuffix_def)

lemma answerSuffix_exact: "suffix rp path \<Longrightarrow> answerSuffix path (Inr (f, rp))"
  by (simp, intro exI [of _ 0] exI [of _ rp]) simp

lemma suffix_walkIntoRoot:
  assumes "partInv path (stack w) part (remaining w) old"
  shows "iterSuffix path (walkIntoRoot os root p w part nextPath)"
proof -
  obtain r p1 s1 where pp: "PopPart os p (stack w) part = (r, p1, s1)"
    by (cases "PopPart os p (stack w) part") auto
  show ?thesis
  proof (cases r)
    case None
    from PopPart_inv [OF assms pp [unfolded None]] have "chainInv path s1 (remaining w)" .
    with pp None show ?thesis
      by (auto simp: walkIntoRoot_def split: prod.splits sum.splits)
  next
    case (Some err)
    with pp show ?thesis by (simp add: walkIntoRoot_def)
  qed
qed

lemma suffix_walkDirectory:
  assumes "partInv path (stack w) part (remaining w) old"
  shows "iterSuffix path (walkDirectory os root lrp p w part nextPath nextDir)"
proof -
  obtain r p2 s2 where pp: "PopPart os (closeFile os p (currentDir w)) (stack w) part = (r, p2, s2)"
    by (cases "PopPart os (closeFile os p (currentDir w)) (stack w) part") auto
  show ?thesis
  proof (cases r)
    case None
    from PopPart_inv [OF assms pp [unfolded None]] have "chainInv path s2 (remaining w)" .
    with pp None show ?thesis
      by (auto simp: walkDirectory_def Let_def split: prod.splits option.splits)
  next
    case (Some err)
    with pp show ?thesis by (simp add: walkDirectory_def)
  qed
qed

lemma suffix_walkSymlink:
  assumes "partInv path (stack w) part (remaining w) old"
  shows "iterSuffix path (walkSymlink os root lrp up p w part old nextDir)"
proof -
  obtain r p2 where rl: "readlinkatFile os (closeFile os p nextDir) (currentDir w) part = (r, p2)"
    by (cases "readlinkatFile os (closeFile os p nextDir) (currentDir w) part")
  show ?thesis
  proof (cases r)
    case (Inl err)
    with rl show ?thesis by (simp add: walkSymlink_def)
  next
    case (Inr linkDest)
    obtain r3 p3 s3
      where sl: "SwapLink os p2 (stack w) part (currentDir w) old linkDest = (r3, p3, s3)"
      by (cases "SwapLink os p2 (stack w) part (currentDir w) old linkDest") auto
    show ?thesis
    proof (cases r3)
      case None
      from SwapLink_inv [OF assms sl [unfolded None]]
      have "chainInv path s3 (linkDest @ CHR ''/'' # remaining w)" .
      with rl Inr sl None show ?thesis
        by (auto simp: walkSymlink_def Let_def split: prod.splits sum.splits)
    next
      case (Some err)
      with rl Inr sl show ?thesis by (simp add: walkSymlink_def Let_def)
    qed
  qed
qed

lemma suffix_walkOther:
  assumes "partInv path (stack w) part (remaining w) old"
  shows "iterSuffix path (walkOther os p w part nextDir)"
proof -
  obtain r p2 s2 where pp: "PopPart os (closeFile os p (currentDir w)) (stack w) part = (r, p2, s2)"
    by (cases "PopPart os (closeFile os p (currentDir w)) (stack w) part") auto
  show ?thesis
  proof (cases r)
    case None
    from PopPart_inv [OF assms pp [unfolded None]] have c: "chainInv path s2 (remaining w)" .
    show ?thesis
    proof (cases "PopTopSymlink s2")
      case empty: None
      from PopTopSymlink_None [OF this] c chainInv_empty [of path "remaining w"]
      have "\<exists>k s. remaining w = replicate k CHR ''/'' @ s \<and> suffix s path" by simp
      with pp None empty show ?thesis by (simp add: walkOther_def)
    next
      case (Some x)
      obtain d rp s3 where x: "x = (d, rp, s3)" by (cases x)
      from chainInv_front [OF c Some [unfolded x]] have "suffix rp path" .
      with pp None Some x show ?thesis
        by (simp add: walkOther_def answerSuffix_exact del: answerSuffix_simps)
    qed
  next
    case (Some err)
    with pp show ?thesis by (simp add: walkOther_def)
  qed
qed

lemma suffix_walkNotExist:
  assumes "partInv path (stack w) part (remaining w) old"
  shows "iterSuffix path (walkNotExist os p w old)"
proof (cases "PopTopSymlink (stack w)")
  case None
  from PopTopSymlink_None [OF this] assms have "suffix old path"
    by (simp add: partInv_def)
  with None show ?thesis
    by (simp add: walkNotExist_def answerSuffix_exact del: answerSuffix_simps)
next
  case (Some x)
  obtain d rp s3 where x: "x = (d, rp, s3)" by (cases x)
  from partInv_front [OF assms Some [unfolded x]] have "suffix rp path" .
  with Some x show ?thesis
    by (simp add: walkNotExist_def answerSuffix_exact del: answerSuffix_simps)
qed

lemma suffix_walkPart:
  assumes "partInv path (stack w) part (remaining w) old"
  shows "iterSuffix path (walkPart os root lrp up p w part old)"
  by (simp add: walkPart_def Let_def suffix_walkIntoRoot [OF assms]
      suffix_walkDirectory [OF assms] suffix_walkSymlink [OF assms] suffix_walkOther [OF assms]
      suffix_walkNotExist [OF assms]
      split: prod.splits sum.splits fileMode.splits)

lemma suffix_walkStep:
  assumes "chainInv path (stack w) (remaining w)"
  shows "iterSuffix path (walkStep os root lrp up p w)"
proof -
  obtain part rest where nP: "nextPart (remaining w) = (part, rest)"
    by (cases "nextPart (remaining w)")
  from chainInv_split [OF assms nP]
  have "if part = [] then chainInv path (stack w) rest
        else partInv path (stack (w\<lparr>remaining := rest\<rparr>)) part
               (remaining (w\<lparr>remaining := rest\<rparr>)) (remaining w)"
    by simp
  then show ?thesis
    using nP
    by (cases "part = []") (simp_all add: walkStep_def Let_def suffix_walkPart)
qed

lemma suffix_lookupLoop:
  assumes "chainInv path (stack w) (remaining w)"
  shows "answerSuffix path (fst (lookupLoop os root lrp up p w))"
  apply (rule lookupLoop_induct_rule [where I = "\<lambda>p w. chainInv path (stack w) (remaining w)"
      and Q = "\<lambda>r. answerSuffix path (fst r)"])
  subgoal by (rule assms)
  subgoal for p w p' w'
    using suffix_walkStep [of path w os root lrp up p] by simp
  subgoal for p w p' w' res
    using suffix_walkStep [of path w os root lrp up p]
    by (cases res) (simp_all add: deferred_def Let_def del: answerSuffix_simps(2))
  subgoal for p w
    by (simp add: deferred_def Let_def)
  done

lemma suffix_partialLookupInRoot:
  assumes "\<not> hasOpenat2 os" and "partialLookupInRoot os p root path = (Inr (f, rp), p')"
  shows "\<exists>k s. rp = replicate k CHR ''/'' @ s \<and> suffix s path"
proof -
  have init: "chainInv path [] path"
    unfolding chainInv_def by (intro exI [of _ "[]"] exI [of _ path]) simp
  obtain r p1 where rl: "procSelfFdReadlink os p root = (r, p1)"
    by (cases "procSelfFdReadlink os p root")
  obtain d p2 where dp: "dupFile os p1 root = (d, p2)"
    by (cases "dupFile os p1 root")
  from assms rl dp obtain lrp rootClone where "r = Inr lrp" and "d = Inr rootClone"
    by (cases r; cases d) (simp_all add: partialLookupInRoot_def filepath_ToSlash_def)
  with partialLookupInRoot_loop [OF assms(1), of p root lrp p1 rootClone p2 path] rl dp
  have "partialLookupInRoot os p root path =
      lookupLoop os root lrp path p2
        \<lparr>currentDir = rootClone, stack = [], linksWalked = 0, currentPath = [],
         remaining = path\<rparr>"
    by simp
  moreover have "answerSuffix path (fst (lookupLoop os root lrp path p2
          \<lparr>currentDir = rootClone, stack = [], linksWalked = 0, currentPath = [],
           remaining = path\<rparr>))"
    by (rule suffix_lookupLoop) (simp add: init)
  ultimately have "answerSuffix path (fst (Inr (f, rp), p'))"
    using assms(2) by metis
  then show ?thesis by simp
qed

lemma lookupLoop_notExist_empty:
  assumes "remaining w \<noteq> []" and "nextPart (remaining w) = (part, rest)" and "part \<noteq> []"
    and "path_Join [''/'', currentPath w, part] \<noteq> ''/''"
    and "openatFile os p (currentDir w) part = (Inl err, pa)"
    and "errors_Is err ErrNotExist"
    and "stack w = []"
  shows "lookupLoop os root lrp up p w = (Inr (currentDir w, remaining w), pa)"
proof -
  have "walkStep os root lrp up p w =
      Return (pa, w\<lparr>remaining := rest\<rparr>, Inr (currentDir w, remaining w))"
    using assms
    by (simp add: walkStep_part walkPart_def walkNotExist_def PopTopSymlink_def IsEmpty_def)
  from lookupLoop_Return [OF assms(1) this] assms(7) show ?thesis
    by (simp add: deferred_def)
qed

lemma nextPart_prefix: "nextPart rp = (part, rest) \<Longrightarrow> prefix part rp"
  using nextPart_cases [of rp part rest] by (auto simp: prefix_def)

lemma chainInv_notExist_empty:
  assumes "chainInv path [] rem" and "nextPart rem = (part, rest)" and "part \<noteq> []"
  shows "suffix rem path"
  using chainInv_split [OF assms(1,2)] assms(3) by (simp add: partInv_def)

lemma trailing_slash_link_example:
  "partialLookupInRoot
     (treeOs [([], Directory), ([''r''], Directory), ([''r'', ''a''], Symlink ''f/''),
              ([''r'', ''f''], Regular)] 255)
     (procWith 0) (File 0 [''r'']) ''a''
   = (Inr (File 4 [''r'', ''f''], ''/''), \<lparr>kernel = (), nextFile = 5, openFiles = {4, 0}\<rparr>)"
  apply (simp add: walk_defs tree_defs lookupLoop.simps dropEmptyTail.simps insert_Diff_if)
  apply (simp add: eval_nat_numeral)?
  done

text \<open>
  C3, as stated, fails.  The target of a symlink is spliced into the remaining path
  as it is read, followed by a slash; when the walk then stops at a file that is
  neither a directory nor a symlink, what is left of that text is returned with the
  rest.  With the symlink \<open>/r/a -> f/\<close> and the regular file \<open>/r/f\<close>, the walk from \<open>/r\<close>
  along \<open>a\<close> returns the handle of \<open>f\<close> with the remaining path \<open>/\<close>, which is not a
  suffix of \<open>a\<close>.
\<close>

theorem remaining_path_counterexample:
  "partialLookupInRoot
     (treeOs [([], Directory), ([''r''], Directory), ([''r'', ''a''], Symlink ''f/''),
              ([''r'', ''f''], Regular)] 255)
     (procWith 0) (File 0 [''r'']) ''a''
   = (Inr (File 4 [''r'', ''f''], ''/''), \<lparr>kernel = (), nextFile = 5, openFiles = {4, 0}\<rparr>)
   \<and> \<not> suffix ''/'' ''a''"
  using trailing_slash_link_example by (simp add: suffix_def)

text \<open>
  C3, amended.  When the native fast path is not available and the call returns a
  handle, the remaining path it returns is a suffix of the request path, preceded by
  zero or more slashes.  When the next component does not exist and the stack is
  empty, the call returns the current directory with the remaining path as it was
  before the component was split off it: the missing component is at its head, and,
  in a walk that started with the request path and an empty stack (\<open>chainInv\<close>, which
  every iteration keeps), it is a suffix of the request path.
\<close>

theorem remaining_path_suffix:
  "(\<not> hasOpenat2 os \<and> partialLookupInRoot os p root path = (Inr (f, rp), p')
    \<longrightarrow> (\<exists>k s. rp = replicate k CHR ''/'' @ s \<and> suffix s path))
   \<and> (remaining w \<noteq> [] \<and> nextPart (remaining w) = (part, rest) \<and> part \<noteq> []
      \<and> path_Join [''/'', currentPath w, part] \<noteq> ''/''
      \<and> openatFile os pa (currentDir w) part = (Inl err, pb) \<and> errors_Is err ErrNotExist
      \<and> stack w = []
    \<longrightarrow> lookupLoop os root lrp up pa w = (Inr (currentDir w, remaining w), pb)
        \<and> prefix part (remaining w))
   \<and> (chainInv path (stack w) (remaining w) \<and> stack w = []
      \<and> nextPart (remaining w) = (part, rest) \<and> part \<noteq> []
    \<longrightarrow> suffix (remaining w) path)
   \<and> chainInv path [] path
   \<and> (chainInv path (stack w) (remaining w)
      \<and> walkStep os root lrp up pa w = Continue (pc, w')
    \<longrightarrow> chainInv path (stack w') (remaining w'))"
proof (intro conjI impI)
  assume "\<not> hasOpenat2 os \<and> partialLookupInRoot os p root path = (Inr (f, rp), p')"
  then show "\<exists>k s. rp = replicate k CHR ''/'' @ s \<and> suffix s path"
    using suffix_partialLookupInRoot [of os p root path f rp p'] by blast
next
  assume a: "remaining w \<noteq> [] \<and> nextPart (remaining w) = (part, rest) \<and> part \<noteq> []
      \<and> path_Join [''/'', currentPath w, part] \<noteq> ''/''
      \<and> openatFile os pa (currentDir w) part = (Inl err, pb) \<and> errors_Is err ErrNotExist
      \<and> stack w = []"
  then show "lookupLoop os root lrp up pa w = (Inr (currentDir w, remaining w), pb)"
    by (elim conjE) (rule lookupLoop_notExist_empty; assumption)
  from a show "prefix part (remaining w)"
    by (elim conjE) (rule nextPart_prefix)
next
  assume "chainInv path (stack w) (remaining w) \<and> stack w = []
      \<and> nextPart (remaining w) = (part, rest) \<and> part \<noteq> []"
  then show "suffix (remaining w) path"
    using chainInv_notExist_empty [of path "remaining w" part rest] by auto
next
  show "chainInv path [] path"
    unfolding chainInv_def by (intro exI [of _ "[]"] exI [of _ path]) simp
next
  assume "chainInv path (stack w) (remaining w)
      \<and> walkStep os root lrp up pa w = Continue (pc, w')"
  then show "chainInv path (stack w') (remaining w')"
    using suffix_walkStep [of path w os root lrp up pa] by auto
qed

theorem remaining_path_suffix_witness:
  "partialLookupInRoot
     (treeOs [([], Directory), ([''r''], Directory), ([''r'', ''a''], Symlink ''f/''),
              ([''r'', ''f''], Regular)] 255)
     (procWith 0) (File 0 [''r'']) ''a''
   = (Inr (File 4 [''r'', ''f''], ''/''), \<lparr>kernel = (), nextFile = 5, openFiles = {4, 0}\<rparr>)
   \<and> (\<exists>k s. ''/'' = replicate k CHR ''/'' @ s \<and> suffix s ''a'')
   \<and> lookupLoop
        (treeOs [([], Directory), ([''r''], Directory), ([''r'', ''a''], Directory)] 255)
        (File 0 [''r'']) ''/r'' ''a/x/y''
        \<lparr>kernel = (), nextFile = 3, openFiles = {2, 0}\<rparr>
        \<lparr>currentDir = File 2 [''r'', ''a''], stack = [], linksWalked = 0,
         currentPath = ''/a'', remaining = ''x/y''\<rparr>
      = (Inr (File 2 [''r'', ''a''], ''x/y''), \<lparr>kernel = (), nextFile = 3, openFiles = {2, 0}\<rparr>)
   \<and> prefix ''x'' ''x/y''"
proof -
  note ex = trailing_slash_link_example
  have a: "\<exists>k s. ''/'' = replicate k CHR ''/'' @ s \<and> suffix s ''a''"
    using ex
      remaining_path_suffix
        [where os = "treeOs [([], Directory), ([''r''], Directory),
                             ([''r'', ''a''], Symlink ''f/''), ([''r'', ''f''], Regular)] 255"
           and p = "procWith 0" and root = "File 0 [''r'']" and path = "''a''"
           and f = "File 4 [''r'', ''f'']" and rp = "''/''"
           and p' = "\<lparr>kernel = (), nextFile = 5, openFiles = {4, 0}\<rparr>",
         THEN conjunct1]
    by (simp only: treeOs_sel) simp
  have b: "lookupLoop
        (treeOs [([], Directory), ([''r''], Directory), ([''r'', ''a''], Directory)] 255)
        (File 0 [''r'']) ''/r'' ''a/x/y''
        \<lparr>kernel = (), nextFile = 3, openFiles = {2, 0}\<rparr>
        \<lparr>currentDir = File 2 [''r'', ''a''], stack = [], linksWalked = 0,
         currentPath = ''/a'', remaining = ''x/y''\<rparr>
      = (Inr (File 2 [''r'', ''a''], ''x/y''), \<lparr>kernel = (), nextFile = 3, openFiles = {2, 0}\<rparr>)
      \<and> prefix ''x'' ''x/y''"
    using remaining_path_suffix
        [where os = "treeOs [([], Directory), ([''r''], Directory),
                             ([''r'', ''a''], Directory)] 255"
           and root = "File 0 [''r'']" and lrp = "''/r''" and up = "''a/x/y''"
           and pa = "\<lparr>kernel = (), nextFile = 3, openFiles = {2, 0}\<rparr>"
           and w = "\<lparr>currentDir = File 2 [''r'', ''a''], stack = [], linksWalked = 0,
                     currentPath = ''/a'', remaining = ''x/y''\<rparr>"
           and part = "''x''" and rest = "''y''" and err = "Errno ENOENT"
           and pb = "\<lparr>kernel = (), nextFile = 3, openFiles = {2, 0}\<rparr>",
         THEN conjunct2, THEN conjunct1]
    by (simp add: walk_defs tree_defs)
  from ex a b show ?thesis by (intro conjI) simp_all
qed

section \<open>The logical path\<close>









lemma treePath_root_iff: "list_all (\<lambda>c. c \<noteq> []) out \<Longrightarrow> treePath out = ''/'' \<longleftrightarrow> out = []"
  by (cases out) (auto simp: treePath_def)




section \<open>Staying under the root\<close>

lemma iterIn_simps [simp]:
  "iterIn R (Continue (p', w')) = locInv R w'"
  "iterIn R (Return (p', w', res)) = answerIn R res"
  by (simp_all add: iterIn_def)


lemma stackIn_simps [simp]:
  "stackIn R []"
  "stackIn R (e # st) = (prefix R (desc (dir e)) \<and> stackIn R st)"
  "stackIn R (st @ st') = (stackIn R st \<and> stackIn R st')"
  by (simp_all add: stackIn_def)

























end
